theory Spec2Isabelle
  imports Main "HOL-Library.Word" "HOL-Library.Sublist" "HOL-Library.AList"
    "HOL-Library.Signed_Division" "HOL-Library.Multiset"
begin

section \<open>Machine integers and chunk records\<close>

text \<open>
  Go's \<open>int64\<close> is a 64-bit word: \<open>+\<close>, \<open>-\<close> and \<open>*\<close> wrap around, and the
  comparisons of the source are the signed ones (\<open><s\<close>, \<open>\<le>s\<close>); \<open>sint\<close> reads the
  value as a mathematical integer.
\<close>

type_synonym int64 = "64 word"

type_synonym byte = "8 word"

text \<open>
  Modelled from the spec: \<open>chunks.ChunkInfo\<close>, the match record and planned chunk
  of the specification. The type is declared in package \<open>chunks\<close>, which is not
  among the sources; its fields are the ones the sources read and write. The field
  \<open>Source\<close> is only ever set to \<open>nil\<close> and never read, so it carries no information
  and is left out.
\<close>

record ChunkInfo =
  Size :: int64
  SourceOffset :: int64
  TargetOffset :: int64

text \<open>
  Modelled from the spec: \<open>chunks.ChunkChecksum\<close>, the block checksum of the
  specification, declared in package \<open>chunks\<close>. The scanner reads only
  \<open>int64(match.ChunkOffset)\<close>, the block's ordinal in the remote file; the field holds
  that converted value.
\<close>

record ChunkChecksum =
  ChunkOffset :: int64

text \<open>The \<open>ZSync\<close> struct; the checksum index lives in a package of its own.\<close>

record 'idx ZSync =
  BlockSize :: int64
  ChecksumsIndex :: 'idx
  RemoteFileUrl :: string
  RemoteFileSize :: int64
  RemoteFileSHA1 :: string

section \<open>Errors and panics\<close>

text \<open>
  The \<open>error\<close> values of the sources: \<open>io.EOF\<close>, the errors built with
  \<open>fmt.Errorf\<close> (one constructor per message, with the values the message prints),
  and \<open>Foreign\<close> for an error of the environment (the operating system, the HTTP
  transport), named by its message. A run-time panic is not an error value: a
  function that can panic returns \<open>Inl\<close> of the panic.
\<close>

datatype error =
    EOF
  | Foreign string
  | UnknownWhence int
  | CreatingRangeRequest string error
  | ExecutingRequest string error
  | URLNotFound
  | RangedRequestNotSupported
  | ResponseGZiped
  | RangeSizeMismatch int64 int64
  | UnableToSeekSource int64
  | UnableToSeekTarget int64
  | UnableToCopyBytes int64 error

datatype panic = SliceBoundsOutOfRange | IntegerDivideByZero | MakeSliceLenOutOfRange

section \<open>The range source: \<open>HttpFileSource\<close>\<close>

text \<open>
  The struct of the source. \<open>Size\<close> is written \<open>Size_h\<close> here, a chunk's \<open>Size\<close> being
  a field already. \<open>client\<close> is the pointer to the \<open>http.Client\<close>: \<open>None\<close> for \<open>nil\<close>.
\<close>

datatype http_client = DefaultClient

record HttpFileSource =
  URL :: string
  Offset :: int64
  Size_h :: int64
  cacheBegin :: int64
  cacheEnd :: int64
  readerCache :: "byte list"
  client :: "http_client option"

text \<open>
  \<open>Seek\<close> returns the pair of the source, \<open>(int64, error)\<close>, and the updated
  receiver. \<open>whence\<close> is a Go \<open>int\<close>, only compared with 0, 1 and 2.
\<close>

definition Seek :: "HttpFileSource \<Rightarrow> int64 \<Rightarrow> int \<Rightarrow> (int64 \<times> error option) \<times> HttpFileSource" where
  "Seek h offset whence =
     (if whence = 0 then ((offset, None), h\<lparr>Offset := offset\<rparr>)
      else if whence = 1 then ((offset, None), h\<lparr>Offset := Offset h + offset\<rparr>)
      else if whence = 2 then ((offset, None), h\<lparr>Offset := Size_h h + offset\<rparr>)
      else ((- 1, Some (UnknownWhence whence)), h))"

section \<open>The scanner's chunk emission: \<open>createChunks\<close>\<close>

text \<open>One chunk per strong match, sent on the channel in the order of the matches.\<close>

definition newChunk :: "'idx ZSync \<Rightarrow> int64 \<Rightarrow> ChunkChecksum \<Rightarrow> ChunkInfo" where
  "newChunk zsync offset match =
     (let c = \<lparr>Size = BlockSize zsync, SourceOffset = offset,
                TargetOffset = ChunkOffset match * BlockSize zsync\<rparr>
      in if RemoteFileSize zsync <s TargetOffset c + Size c
         then c\<lparr>Size := RemoteFileSize zsync - TargetOffset c\<rparr>
         else c)"

definition createChunks :: "'idx ZSync \<Rightarrow> ChunkChecksum list \<Rightarrow> int64 \<Rightarrow> ChunkInfo list" where
  "createChunks zsync strongMatches offset = map (newChunk zsync offset) strongMatches"

section \<open>The chunk planner: \<open>ChunksMapper\<close>\<close>

text \<open>
  \<open>chunksMap\<close> is a Go map from target offset to chunk. It is kept as an association
  list with one entry per key (\<open>AList.update\<close> overwrites the entry of a key that is
  present); the order of the entries stands for the order in which \<open>range\<close> visits
  the map, which Go leaves open.
\<close>

record ChunksMapper =
  fileSize :: int64
  chunksMap :: "(int64 \<times> ChunkInfo) list"

definition NewFileChunksMapper :: "int64 \<Rightarrow> ChunksMapper" where
  "NewFileChunksMapper n = \<lparr>fileSize = n, chunksMap = []\<rparr>"

definition Add :: "ChunksMapper \<Rightarrow> ChunkInfo \<Rightarrow> ChunksMapper" where
  "Add mapper chunk =
     mapper\<lparr>chunksMap := AList.update (TargetOffset chunk) chunk (chunksMap mapper)\<rparr>"

text \<open>\<open>FillChunksMap\<close> drains the channel, here the list of the chunks sent on it.\<close>

definition FillChunksMap :: "ChunksMapper \<Rightarrow> ChunkInfo list \<Rightarrow> ChunksMapper" where
  "FillChunksMap mapper chunkChannel = fold (\<lambda>chunk m. Add m chunk) chunkChannel mapper"

text \<open>
  \<open>sort.SliceStable\<close> with \<open>less\<close> the signed comparison of the target offsets:
  \<open>sort_key\<close> is a stable sort, keyed by the signed reading of the offset.
\<close>

definition GetMappedChunks :: "ChunksMapper \<Rightarrow> ChunkInfo list" where
  "GetMappedChunks mapper =
     sort_key (\<lambda>chk. sint (TargetOffset chk)) (map snd (chunksMap mapper))"

text \<open>
  The loop of \<open>GetMissingChunks\<close> over the sorted chunks, on the pair of
  \<open>missingChunkList\<close> and \<open>pastChunkEnd\<close>, and the test after the loop.
\<close>

definition missing_step :: "ChunkInfo \<Rightarrow> ChunkInfo list \<times> int64 \<Rightarrow> ChunkInfo list \<times> int64" where
  "missing_step c st =
     (case st of (missingChunkList, pastChunkEnd) \<Rightarrow>
        ((if pastChunkEnd \<noteq> TargetOffset c
          then missingChunkList @
                 [\<lparr>Size = TargetOffset c - pastChunkEnd, SourceOffset = pastChunkEnd,
                   TargetOffset = pastChunkEnd\<rparr>]
          else missingChunkList),
         TargetOffset c + Size c))"

definition GetMissingChunks :: "ChunksMapper \<Rightarrow> ChunkInfo list" where
  "GetMissingChunks mapper =
     (case fold missing_step (GetMappedChunks mapper) ([], 0) of
        (missingChunkList, pastChunkEnd) \<Rightarrow>
          if pastChunkEnd \<noteq> fileSize mapper
          then missingChunkList @
                 [\<lparr>Size = fileSize mapper - pastChunkEnd, SourceOffset = pastChunkEnd,
                   TargetOffset = pastChunkEnd\<rparr>]
          else missingChunkList)"

text \<open>
  \<open>OptimizeChunks\<close>. \<open>skipList\<close> is a \<open>map[int]bool\<close>, read as \<open>false\<close> where no
  entry was stored: a function from indices to \<open>bool\<close>. The inner loop runs over
  \<open>n = i, ..., len - 1\<close> on the triple of \<open>chunk\<close>, \<open>end\<close> and \<open>skipList\<close>; the outer
  loop over \<open>i = 0, ..., len - 1\<close> on the pair of \<open>chunkListOut\<close> and \<open>skipList\<close>.
  The receiver is not used by the method.
\<close>

definition optimize_inner ::
  "ChunkInfo list \<Rightarrow> int64 \<Rightarrow> nat \<Rightarrow> ChunkInfo \<times> int64 \<times> (nat \<Rightarrow> bool)
     \<Rightarrow> ChunkInfo \<times> int64 \<times> (nat \<Rightarrow> bool)" where
  "optimize_inner chunkList minGap n st =
     (case st of (chunk, end_c, skipList) \<Rightarrow>
        if skipList n then st
        else
          let nextChunk = chunkList ! n;
              nextEnd = SourceOffset nextChunk + Size nextChunk
          in if SourceOffset nextChunk <s end_c + minGap
             then (chunk\<lparr>Size := nextEnd - SourceOffset chunk\<rparr>, nextEnd, skipList(n := True))
             else st)"

definition optimize_outer ::
  "ChunkInfo list \<Rightarrow> int64 \<Rightarrow> nat \<Rightarrow> ChunkInfo list \<times> (nat \<Rightarrow> bool)
     \<Rightarrow> ChunkInfo list \<times> (nat \<Rightarrow> bool)" where
  "optimize_outer chunkList minGap i st =
     (case st of (chunkListOut, skipList) \<Rightarrow>
        if skipList i then st
        else
          let chunk = chunkList ! i;
              end_c = SourceOffset chunk + Size chunk
          in (case fold (optimize_inner chunkList minGap) [i..<length chunkList]
                     (chunk, end_c, skipList) of
                (chunk', end', skipList') \<Rightarrow> (chunkListOut @ [chunk'], skipList')))"

definition OptimizeChunks :: "ChunkInfo list \<Rightarrow> int64 \<Rightarrow> ChunkInfo list" where
  "OptimizeChunks chunkList minGap =
     fst (fold (optimize_outer chunkList minGap) [0..<length chunkList] ([], \<lambda>n. False))"

section \<open>\<open>NewZSync\<close>: the URL of the remote file\<close>

text \<open>
  \<open>strings.HasPrefix\<close> and \<open>strings.LastIndex\<close> of Go's library: the index of the last
  occurrence of \<open>substr\<close> in \<open>s\<close>, or -1. \<open>slice_to s hi\<close> is the slice expression
  \<open>s[:hi]\<close>, which panics when \<open>hi\<close> is out of range.
\<close>

definition HasPrefix :: "string \<Rightarrow> string \<Rightarrow> bool" where
  "HasPrefix s pre = prefix pre s"

fun LastIndex :: "string \<Rightarrow> string \<Rightarrow> int" where
  "LastIndex [] substr = (if substr = [] then 0 else - 1)"
| "LastIndex (c # s) substr =
     (let r = LastIndex s substr
      in if 0 \<le> r then r + 1 else if prefix substr (c # s) then 0 else - 1)"

definition slice_to :: "string \<Rightarrow> int \<Rightarrow> panic + string" where
  "slice_to s hi =
     (if 0 \<le> hi \<and> hi \<le> int (length s) then Inr (take (nat hi) s)
      else Inl SliceBoundsOutOfRange)"

text \<open>
  Modelled from the spec: \<open>control.Control\<close>, the parsed control file (package
  \<open>control\<close>, not among the sources): the fields
  \<open>NewZSync\<close> reads, \<open>BlockSize\<close> and \<open>URL\<close> written \<open>BlockSize_c\<close> and \<open>URL_c\<close>.
  \<open>BlockSize_c\<close> holds the converted value \<open>int64(c.BlockSize)\<close>.
\<close>

record 'idx Control =
  BlockSize_c :: int64
  ChecksumIndex :: 'idx
  URL_c :: string
  FileLength :: int64
  SHA1 :: string

text \<open>
  \<open>NewZSync\<close>. \<open>fetched\<close> is what \<open>http.Get\<close>, \<open>control.ReadControl\<close> and the closing of
  the body yield together: the first error, or the control. A relative URL is
  resolved against the URL of the control file.
\<close>

definition NewZSync :: "string \<Rightarrow> error + 'idx Control \<Rightarrow> panic + (error + 'idx ZSync)" where
  "NewZSync zsyncFileUrl fetched =
     (case fetched of
        Inl err \<Rightarrow> Inr (Inl err)
      | Inr c \<Rightarrow>
          (case (if \<not> (HasPrefix (URL_c c) ''http'' \<or> HasPrefix (URL_c c) ''ftp'')
                 then (let baseURL = LastIndex zsyncFileUrl ''/''
                       in map_sum id (\<lambda>base. base @ ''/'' @ URL_c c)
                            (slice_to zsyncFileUrl baseURL))
                 else Inr (URL_c c)) of
             Inl p \<Rightarrow> Inl p
           | Inr url \<Rightarrow>
               Inr (Inr \<lparr>BlockSize = BlockSize_c c, ChecksumsIndex = ChecksumIndex c,
                         RemoteFileUrl = url, RemoteFileSize = FileLength c,
                         RemoteFileSHA1 = SHA1 c\<rparr>)))"

section \<open>\<open>HttpFileSource.Request\<close> and the HTTP environment\<close>

text \<open>
  The request the source builds (method, URL and the headers it adds), and what
  \<open>net/http\<close> hands back: the status code, the headers, and the body as the bytes
  that \<open>ReadFrom\<close> reads from it, with \<open>BodyError\<close> the error that ends the reading
  (\<open>None\<close> when the body ends regularly).
\<close>

record http_request =
  Method :: string
  RequestURL :: string
  Header :: "(string \<times> string) list"

record http_response =
  StatusCode :: int
  ResponseHeader :: "(string \<times> string) list"
  Body :: "byte list"
  BodyError :: "error option"

text \<open>
  The environment of the source: whether \<open>http.NewRequest\<close> accepts a URL (\<open>None\<close>) or
  returns an error for it, and what \<open>client.Do\<close> does for a request. The client of
  the source is a zero \<open>http.Client\<close>, which follows redirects: one call of \<open>Do\<close>
  performs the request it is given and then the requests to the targets of the
  redirects it follows. \<open>Do\<close> yields the requests performed, in order, and the
  outcome of the call: an error, or the final response.
\<close>

record http_env =
  NewRequest_error :: "string \<Rightarrow> error option"
  Do :: "http_request \<Rightarrow> http_request list \<times> (error + http_response)"

text \<open>
  \<open>Header.Get\<close> (the empty string for an absent key), \<open>strings.Contains\<close>, and the
  decimal text \<open>%v\<close> prints for an int64.
\<close>

definition Header_Get :: "(string \<times> string) list \<Rightarrow> string \<Rightarrow> string" where
  "Header_Get hdr key = (case map_of hdr key of None \<Rightarrow> [] | Some v \<Rightarrow> v)"

fun Contains :: "string \<Rightarrow> string \<Rightarrow> bool" where
  "Contains [] substr \<longleftrightarrow> substr = []"
| "Contains (c # s) substr \<longleftrightarrow> prefix substr (c # s) \<or> Contains s substr"

fun format_nat :: "nat \<Rightarrow> string" where
  "format_nat n =
     (if n < 10 then [''0123456789'' ! n]
      else format_nat (n div 10) @ [''0123456789'' ! (n mod 10)])"

declare format_nat.simps [simp del]

definition format_int64 :: "int64 \<Rightarrow> string" where
  "format_int64 w =
     (if sint w < 0 then CHR ''-'' # format_nat (nat (- sint w)) else format_nat (nat (sint w)))"

text \<open>
  \<open>doRangeRequest\<close> returns the body or an error; the model returns the response in
  place of its body, the receiver (whose \<open>client\<close> it may set), and the requests that
  were performed, in order: none when the request could not be built, otherwise the
  ones \<open>client.Do\<close> performed. \<open>ProtoAtLeast\<close> only reads the request.
\<close>

definition range_request :: "HttpFileSource \<Rightarrow> int64 \<Rightarrow> int64 \<Rightarrow> http_request" where
  "range_request h range_start range_end =
     \<lparr>Method = ''GET'', RequestURL = URL h,
      Header = [(''Range'', ''bytes='' @ format_int64 range_start @ ''-''
                              @ format_int64 (range_end - 1)),
                (''Accept-Encoding'', ''identity'')]\<rparr>"

definition doRangeRequest ::
  "http_env \<Rightarrow> HttpFileSource \<Rightarrow> int64 \<Rightarrow> int64
     \<Rightarrow> (error + http_response) \<times> HttpFileSource \<times> http_request list" where
  "doRangeRequest env h range_start range_end =
     (case NewRequest_error env (URL h) of
        Some err \<Rightarrow> (Inl (CreatingRangeRequest (URL h) err), h, [])
      | None \<Rightarrow>
          let rangedRequest = range_request h range_start range_end;
              h' = (if client h = None then h\<lparr>client := Some DefaultClient\<rparr> else h)
          in (case Do env rangedRequest of
                (performed, Inl err) \<Rightarrow> (Inl (ExecutingRequest (URL h) err), h', performed)
              | (performed, Inr rangedResponse) \<Rightarrow>
                  if StatusCode rangedResponse = 404
                  then (Inl URLNotFound, h', performed)
                  else if StatusCode rangedResponse \<noteq> 206
                  then (Inl RangedRequestNotSupported, h', performed)
                  else if Contains (Header_Get (ResponseHeader rangedResponse)
                                      ''Content-Encoding'') ''gzip''
                  then (Inl ResponseGZiped, h', performed)
                  else (Inr rangedResponse, h', performed)))"

text \<open>
  \<open>Request\<close>: the error (\<open>None\<close> for \<open>nil\<close>), the receiver and the requests performed.
  \<open>readerCache.ReadFrom\<close> appends the bytes it reads to the cache.
\<close>

definition Request ::
  "http_env \<Rightarrow> HttpFileSource \<Rightarrow> int64 \<Rightarrow> error option \<times> HttpFileSource \<times> http_request list" where
  "Request env h sz =
     (let h1 = h\<lparr>cacheBegin := Offset h, cacheEnd := Offset h + sz\<rparr>
      in case doRangeRequest env h1 (cacheBegin h1) (cacheEnd h1) of
           (Inl err, h2, reqs) \<Rightarrow> (Some err, h2, reqs)
         | (Inr resp, h2, reqs) \<Rightarrow>
             let h3 = h2\<lparr>readerCache := readerCache h2 @ Body resp\<rparr>;
                 n = word_of_nat (length (Body resp))
             in (case BodyError resp of
                   Some err \<Rightarrow> (Some err, h3, reqs)
                 | None \<Rightarrow>
                     if n \<noteq> sz then (Some (RangeSizeMismatch n sz), h3, reqs)
                     else (None, h3, reqs)))"

text \<open>
  Three environments: one in which \<open>http.NewRequest\<close> rejects the URL, one that
  answers every request with a given response, and one in which the server
  redirects once and the client follows, to a final response 206 of three bytes.
\<close>

definition rejecting_env :: http_env where
  "rejecting_env =
     \<lparr>NewRequest_error = (\<lambda>u. Some (Foreign ''parse: missing protocol scheme'')),
      Do = (\<lambda>r. ([], Inl (Foreign ''no request'')))\<rparr>"

definition answering_env :: "http_response \<Rightarrow> http_env" where
  "answering_env resp = \<lparr>NewRequest_error = (\<lambda>u. None), Do = (\<lambda>r. ([r], Inr resp))\<rparr>"

definition redirecting_env :: http_env where
  "redirecting_env =
     \<lparr>NewRequest_error = (\<lambda>u. None),
      Do = (\<lambda>r. ([r, r\<lparr>RequestURL := ''http://mirror/file''\<rparr>],
                  Inr \<lparr>StatusCode = 206, ResponseHeader = [], Body = [1, 2, 3],
                       BodyError = None\<rparr>))\<rparr>"

section \<open>The assembler's copy: \<open>WriteChunk\<close>\<close>

text \<open>
  \<open>WriteChunk\<close> takes an \<open>io.ReadSeeker\<close> and an \<open>io.WriteSeeker\<close> of any kind. The
  four calls it makes are the fields of \<open>chunk_io\<close>, over a state \<open>'s\<close> of the source
  and a state \<open>'t\<close> of the target: \<open>source.Seek(offset, io.SeekStart)\<close> and
  \<open>target.Seek(offset, io.SeekStart)\<close> (only their error is used),
  \<open>io.CopyN(target, source, n)\<close> with the count and the error it returns, and
  \<open>target.Write\<close>. \<open>make_bytes\<close> is \<open>make([]byte, len)\<close>, which panics on a negative
  length.
\<close>

record ('s, 't) chunk_io =
  source_Seek :: "int64 \<Rightarrow> 's \<Rightarrow> error option \<times> 's"
  target_Seek :: "int64 \<Rightarrow> 't \<Rightarrow> error option \<times> 't"
  CopyN :: "int64 \<Rightarrow> 's \<Rightarrow> 't \<Rightarrow> (int64 \<times> error option) \<times> 's \<times> 't"
  target_Write :: "byte list \<Rightarrow> 't \<Rightarrow> error option \<times> 't"

definition make_bytes :: "int64 \<Rightarrow> panic + byte list" where
  "make_bytes len = (if sint len < 0 then Inl MakeSliceLenOutOfRange
                     else Inr (replicate (nat (sint len)) 0))"

definition WriteChunk ::
  "('s, 't) chunk_io \<Rightarrow> ChunkInfo \<Rightarrow> 's \<Rightarrow> 't \<Rightarrow> panic + (error option \<times> 's \<times> 't)" where
  "WriteChunk io chunk source target =
     (case source_Seek io (SourceOffset chunk) source of
        (Some err, source1) \<Rightarrow>
          Inr (Some (UnableToSeekSource (SourceOffset chunk)), source1, target)
      | (None, source1) \<Rightarrow>
          (case target_Seek io (TargetOffset chunk) target of
             (Some err, target1) \<Rightarrow>
               Inr (Some (UnableToSeekTarget (TargetOffset chunk)), source1, target1)
           | (None, target1) \<Rightarrow>
               (case CopyN io (Size chunk) source1 target1 of
                  ((n, err), source2, target2) \<Rightarrow>
                    (case (if err = Some EOF \<and> n <s Size chunk
                           then map_sum id (\<lambda>zeros. target_Write io zeros target2)
                                  (make_bytes (Size chunk - n))
                           else Inr (err, target2)) of
                       Inl p \<Rightarrow> Inl p
                     | Inr (Some err', target3) \<Rightarrow>
                         Inr (Some (UnableToCopyBytes n err'), source2, target3)
                     | Inr (None, target3) \<Rightarrow> Inr (None, source2, target3)))))"

text \<open>
  An instance to run \<open>WriteChunk\<close> on: files in memory, a byte list and a cursor.
  \<open>Seek\<close> fails on a negative position; \<open>Write\<close> overwrites at the cursor, filling
  the bytes between the end of the file and the cursor with zeros; \<open>CopyN\<close> copies
  the bytes the source has left, at most \<open>n\<close>, and returns \<open>io.EOF\<close> when they are
  fewer than \<open>n\<close>.
\<close>

record mem_file =
  bytes :: "byte list"
  cursor :: nat

definition mem_Seek :: "int64 \<Rightarrow> mem_file \<Rightarrow> error option \<times> mem_file" where
  "mem_Seek offset f =
     (if sint offset < 0 then (Some (Foreign ''negative position''), f)
      else (None, f\<lparr>cursor := nat (sint offset)\<rparr>))"

definition mem_Write :: "byte list \<Rightarrow> mem_file \<Rightarrow> error option \<times> mem_file" where
  "mem_Write bs f =
     (None,
      \<lparr>bytes = take (cursor f) (bytes f @ replicate (cursor f - length (bytes f)) 0) @ bs
                 @ drop (cursor f + length bs) (bytes f),
       cursor = cursor f + length bs\<rparr>)"

definition mem_CopyN ::
  "int64 \<Rightarrow> mem_file \<Rightarrow> mem_file \<Rightarrow> (int64 \<times> error option) \<times> mem_file \<times> mem_file" where
  "mem_CopyN n src dst =
     (let got = take (nat (sint n)) (drop (cursor src) (bytes src))
      in ((word_of_nat (length got), if length got = nat (sint n) then None else Some EOF),
          src\<lparr>cursor := cursor src + length got\<rparr>, snd (mem_Write got dst)))"

definition mem_io :: "(mem_file, mem_file) chunk_io" where
  "mem_io = \<lparr>source_Seek = mem_Seek, target_Seek = mem_Seek, CopyN = mem_CopyN,
             target_Write = mem_Write\<rparr>"

section \<open>The local scanner: \<open>searchReusableChunksAsync\<close>\<close>

text \<open>
  The scanner works on a file of the operating system, a
  \<open>hasedbuffer.HashedRingBuffer\<close> and an \<open>index.ChecksumIndex\<close>; the two packages are
  not among the sources. What the scanner calls is the environment \<open>scan_env\<close>, over
  any types of buffers, files, indexes, weak sums, strong sums and candidate lists:
  \<open>os.Open(path)\<close>, \<open>input.Seek(begin, io.SeekStart)\<close>, \<open>NewHashedBuffer\<close>, the two
  reads of the buffer from the file (with the error they return), the two sums, and
  the two lookups, whose result \<open>nil\<close> is \<open>None\<close>.
\<close>

record ('buf, 'file, 'idx, 'weak, 'strong, 'cands) scan_env =
  OpenFile :: "error + 'file"
  SeekFile :: "int64 \<Rightarrow> 'file \<Rightarrow> error option \<times> 'file"
  NewHashedBuffer :: "int64 \<Rightarrow> 'buf"
  ReadFull :: "'buf \<Rightarrow> 'file \<Rightarrow> error option \<times> 'buf \<times> 'file"
  ReadByte :: "'buf \<Rightarrow> 'file \<Rightarrow> error option \<times> 'buf \<times> 'file"
  RollingSum :: "'buf \<Rightarrow> 'weak"
  CheckSum :: "'buf \<Rightarrow> 'strong"
  FindWeakChecksum2 :: "'idx \<Rightarrow> 'weak \<Rightarrow> 'cands option"
  FindStrongChecksum2 :: "'idx \<Rightarrow> 'strong \<Rightarrow> 'cands \<Rightarrow> ChunkChecksum list option"

text \<open>
  \<open>consumeBytes\<close>: one \<open>ReadFull\<close> when \<open>nBytes\<close> is the block size, otherwise \<open>nBytes\<close>
  times \<open>ReadByte\<close>, stopping at the first error.
\<close>

fun read_bytes ::
  "('buf, 'file, 'idx, 'weak, 'strong, 'cands) scan_env \<Rightarrow> nat \<Rightarrow> 'buf \<Rightarrow> 'file
     \<Rightarrow> error option \<times> 'buf \<times> 'file" where
  "read_bytes env 0 buf input = (None, buf, input)"
| "read_bytes env (Suc k) buf input =
     (case ReadByte env buf input of
        (Some err, buf', input') \<Rightarrow> (Some err, buf', input')
      | (None, buf', input') \<Rightarrow> read_bytes env k buf' input')"

definition consumeBytes ::
  "('buf, 'file, 'idx, 'weak, 'strong, 'cands) scan_env \<Rightarrow> 'idx ZSync \<Rightarrow> 'buf \<Rightarrow> 'file \<Rightarrow> int64
     \<Rightarrow> error option \<times> 'buf \<times> 'file" where
  "consumeBytes env zsync buf input nBytes =
     (if nBytes = BlockSize zsync then ReadFull env buf input
      else read_bytes env (nat (sint nBytes)) buf input)"

text \<open>
  The variables of the loop, and \<open>sent\<close>, the chunks sent on the channel so far.
  \<open>scan_body\<close> is one iteration, the loop's post statement \<open>off += nextStep\<close>
  included; \<open>None\<close> is the \<open>break\<close>.
\<close>

record ('buf, 'file) scan_state =
  off :: int64
  nextStep :: int64
  buf :: 'buf
  input :: 'file
  sent :: "ChunkInfo list"

definition scan_body ::
  "('buf, 'file, 'idx, 'weak, 'strong, 'cands) scan_env \<Rightarrow> 'idx ZSync \<Rightarrow> ('buf, 'file) scan_state
     \<Rightarrow> ('buf, 'file) scan_state option" where
  "scan_body env zsync st =
     (case consumeBytes env zsync (buf st) (input st) (nextStep st) of
        (Some err, buf', input') \<Rightarrow> None
      | (None, buf', input') \<Rightarrow>
          (case (case FindWeakChecksum2 env (ChecksumsIndex zsync) (RollingSum env buf') of
                   None \<Rightarrow> None
                 | Some weakMatches \<Rightarrow>
                     FindStrongChecksum2 env (ChecksumsIndex zsync) (CheckSum env buf')
                       weakMatches) of
             Some strongMatches \<Rightarrow>
               Some (st\<lparr>buf := buf', input := input',
                        sent := sent st @ createChunks zsync strongMatches (off st),
                        nextStep := BlockSize zsync,
                        off := off st + BlockSize zsync\<rparr>)
           | None \<Rightarrow>
               Some (st\<lparr>buf := buf', input := input', nextStep := 1, off := off st + 1\<rparr>)))"

text \<open>
  The loop \<open>for off := begin; off < end; off += nextStep\<close>, with fuel: \<open>None\<close> when the
  fuel runs out before the loop ends.
\<close>

fun scan_loop ::
  "nat \<Rightarrow> ('buf, 'file, 'idx, 'weak, 'strong, 'cands) scan_env \<Rightarrow> 'idx ZSync \<Rightarrow> int64
     \<Rightarrow> ('buf, 'file) scan_state \<Rightarrow> ('buf, 'file) scan_state option" where
  "scan_loop 0 env zsync end_w st = (if off st <s end_w then None else Some st)"
| "scan_loop (Suc fuel) env zsync end_w st =
     (if off st <s end_w
      then (case scan_body env zsync st of
              None \<Rightarrow> Some st
            | Some st' \<Rightarrow> scan_loop fuel env zsync end_w st')
      else Some st)"

text \<open>
  \<open>searchReusableChunksAsync\<close> returns nothing; the model returns the chunks it has
  sent. An error of \<open>os.Open\<close> or of \<open>Seek\<close> ends it silently.
\<close>

definition searchReusableChunksAsync ::
  "nat \<Rightarrow> ('buf, 'file, 'idx, 'weak, 'strong, 'cands) scan_env \<Rightarrow> 'idx ZSync \<Rightarrow> int64 \<Rightarrow> int64
     \<Rightarrow> ChunkInfo list option" where
  "searchReusableChunksAsync fuel env zsync begin_w end_w =
     (case OpenFile env of
        Inl err \<Rightarrow> Some []
      | Inr input0 \<Rightarrow>
          (case SeekFile env begin_w input0 of
             (Some err, input1) \<Rightarrow> Some []
           | (None, input1) \<Rightarrow>
               map_option sent
                 (scan_loop fuel env zsync end_w
                    \<lparr>off = begin_w, nextStep = BlockSize zsync,
                     buf = NewHashedBuffer env (BlockSize zsync), input = input1,
                     sent = []\<rparr>)))"

text \<open>
  An environment to run the scanner on: the file is the list of the bytes still to
  read, the buffer is the window of bytes, the weak sum is the sum of the window, the
  strong sum the window itself, and the index lists the blocks of the remote file
  with their ordinals.
\<close>

type_synonym toy_index = "(byte list \<times> int64) list"

definition toy_env :: "byte list \<Rightarrow> (byte list, byte list, toy_index, nat, byte list, toy_index) scan_env" where
  "toy_env content =
     \<lparr>OpenFile = Inr content,
      SeekFile = (\<lambda>offset f. if sint offset < 0 then (Some (Foreign ''negative position''), f)
                              else (None, drop (nat (sint offset)) f)),
      NewHashedBuffer = (\<lambda>n. replicate (nat (sint n)) 0),
      ReadFull = (\<lambda>b f. if length f < length b then (Some EOF, b, f)
                          else (None, take (length b) f, drop (length b) f)),
      ReadByte = (\<lambda>b f. case f of [] \<Rightarrow> (Some EOF, b, f) | x # f' \<Rightarrow> (None, tl b @ [x], f')),
      RollingSum = (\<lambda>b. sum_list (map unat b)),
      CheckSum = (\<lambda>b. b),
      FindWeakChecksum2 = (\<lambda>idx w. case filter (\<lambda>e. sum_list (map unat (fst e)) = w) idx of
                                       [] \<Rightarrow> None | e # es \<Rightarrow> Some (e # es)),
      FindStrongChecksum2 = (\<lambda>idx s cands. case filter (\<lambda>e. fst e = s) cands of
                                       [] \<Rightarrow> None
                                     | e # es \<Rightarrow> Some (map (\<lambda>e. \<lparr>ChunkOffset = snd e\<rparr>) (e # es)))\<rparr>"

definition toy_zsync :: "toy_index ZSync" where
  "toy_zsync = \<lparr>BlockSize = 2, ChecksumsIndex = [([3, 4], 0), ([9, 9], 1), ([3, 4], 2)],
                RemoteFileUrl = ''http://host/file'', RemoteFileSize = 6, RemoteFileSHA1 = ''''\<rparr>"

section \<open>The scanner's workers: \<open>SearchReusableChunks\<close>\<close>

text \<open>
  Go's \<open>/\<close> on int64: the quotient truncated towards zero, wrapped into int64, and a
  run-time panic when the divisor is zero.
\<close>

definition div64 :: "int64 \<Rightarrow> int64 \<Rightarrow> panic + int64" where
  "div64 a b = (if b = 0 then Inl IntegerDivideByZero else Inr (word_of_int (sint a sdiv sint b)))"

text \<open>
  The \<open>begin\<close> and \<open>end\<close> the loop computes for worker \<open>i\<close>.
\<close>

definition worker_range :: "int64 \<Rightarrow> int64 \<Rightarrow> int64 \<Rightarrow> int64 \<Rightarrow> int64 \<times> int64" where
  "worker_range nChunksPerWorker blockSize inputSize i =
     (let begin_w = (nChunksPerWorker * blockSize) * i;
          end_w = begin_w + nChunksPerWorker * blockSize
      in (begin_w, if inputSize <s end_w then inputSize else end_w))"

text \<open>
  \<open>SearchReusableChunks\<close>. \<open>numCPU\<close> is \<open>int64(runtime.NumCPU())\<close> and \<open>stat\<close> what
  \<open>getFileSize\<close> returns, an error or the size of the local file. The function
  hands back the channel on which its workers send; the model returns the
  \<open>(begin, end)\<close> pairs of the workers it starts, in the order of the loop
  \<open>for i := int64(0); i < nWorkers; i++\<close>.
\<close>

definition SearchReusableChunks ::
  "int64 \<Rightarrow> 'idx ZSync \<Rightarrow> error + int64 \<Rightarrow> panic + (error + (int64 \<times> int64) list)" where
  "SearchReusableChunks numCPU zsync stat =
     (case stat of
        Inl err \<Rightarrow> Inr (Inl err)
      | Inr inputSize \<Rightarrow>
          (case div64 inputSize (BlockSize zsync) of
             Inl p \<Rightarrow> Inl p
           | Inr q \<Rightarrow>
               let nChunks = (if q * BlockSize zsync <s inputSize then q + 1 else q);
                   nWorkers = (if nChunks <s numCPU then nChunks else numCPU)
               in (case div64 nChunks nWorkers of
                     Inl p \<Rightarrow> Inl p
                   | Inr nChunksPerWorker \<Rightarrow>
                       Inr (Inr (map (\<lambda>i. worker_range nChunksPerWorker (BlockSize zsync)
                                                inputSize (word_of_nat i))
                                   [0..<nat (sint nWorkers)])))))"

text \<open>The quotient rounded up, on mathematical integers.\<close>

definition ceil_div :: "int \<Rightarrow> int \<Rightarrow> int" where
  "ceil_div a b = (a + b - 1) div b"

section \<open>Functional readings of \<open>OptimizeChunks\<close>\<close>

text \<open>The lists the planner works on are sorted by the signed source offset.\<close>

abbreviation source_sorted :: "ChunkInfo list \<Rightarrow> bool" where
  "source_sorted \<equiv> sorted_wrt (\<lambda>a b. SourceOffset a \<le>s SourceOffset b)"

text \<open>
  The two nested loops read as one pass over the list: \<open>merge_run g c e xs\<close> carries the
  current output chunk \<open>c\<close> and its running end \<open>e\<close> over the remaining chunks, with the
  comparison of the source (\<open>end + minGap > nextChunk.SourceOffset\<close> in int64
  arithmetic). \<open>run_len\<close> and \<open>run_res\<close> describe one run of the inner loop: how many
  chunks it absorbs and the chunk and end it leaves.
\<close>

fun merge_run :: "int64 \<Rightarrow> ChunkInfo \<Rightarrow> int64 \<Rightarrow> ChunkInfo list \<Rightarrow> ChunkInfo list" where
  "merge_run g c e [] = [c]"
| "merge_run g c e (x # xs) =
     (if SourceOffset x <s e + g
      then merge_run g (c\<lparr>Size := SourceOffset x + Size x - SourceOffset c\<rparr>)
             (SourceOffset x + Size x) xs
      else c # merge_run g x (SourceOffset x + Size x) xs)"

definition merge_runs :: "int64 \<Rightarrow> ChunkInfo list \<Rightarrow> ChunkInfo list" where
  "merge_runs g cl =
     (case cl of [] \<Rightarrow> [] | c # cs \<Rightarrow> merge_run g c (SourceOffset c + Size c) cs)"

fun run_len :: "int64 \<Rightarrow> int64 \<Rightarrow> ChunkInfo list \<Rightarrow> nat" where
  "run_len g e [] = 0"
| "run_len g e (x # xs) =
     (if SourceOffset x <s e + g then Suc (run_len g (SourceOffset x + Size x) xs) else 0)"

fun run_res :: "int64 \<Rightarrow> ChunkInfo \<Rightarrow> int64 \<Rightarrow> ChunkInfo list \<Rightarrow> ChunkInfo \<times> int64" where
  "run_res g c e [] = (c, e)"
| "run_res g c e (x # xs) =
     (if SourceOffset x <s e + g
      then run_res g (c\<lparr>Size := SourceOffset x + Size x - SourceOffset c\<rparr>)
             (SourceOffset x + Size x) xs
      else (c, e))"

text \<open>A list on which no chunk would absorb its successor.\<close>

abbreviation settled :: "int64 \<Rightarrow> ChunkInfo list \<Rightarrow> bool" where
  "settled g \<equiv> successively (\<lambda>a b. \<not> SourceOffset b <s SourceOffset a + Size a + g)"

text \<open>
  The coalescing rule in the words of the specification, on mathematical integers: the
  next chunk is merged into the current one exactly when its begin minus the current
  chunk's end is less than \<open>min_gap\<close>; the current chunk's end then becomes the next
  chunk's end, and the next chunk is dropped.
\<close>

fun coalesce_from :: "int64 \<Rightarrow> ChunkInfo \<Rightarrow> ChunkInfo list \<Rightarrow> ChunkInfo list" where
  "coalesce_from minGap cur [] = [cur]"
| "coalesce_from minGap cur (nxt # rest) =
     (if sint (SourceOffset nxt) - (sint (SourceOffset cur) + sint (Size cur)) < sint minGap
      then coalesce_from minGap
             (cur\<lparr>Size := SourceOffset nxt + Size nxt - SourceOffset cur\<rparr>) rest
      else cur # coalesce_from minGap nxt rest)"

definition coalesce :: "int64 \<Rightarrow> ChunkInfo list \<Rightarrow> ChunkInfo list" where
  "coalesce minGap chunkList =
     (case chunkList of [] \<Rightarrow> [] | c # cs \<Rightarrow> coalesce_from minGap c cs)"

text \<open>
  A chunk whose offset and size are not negative and whose end plus \<open>minGap\<close> is still
  an int64: on such chunks no addition of \<open>OptimizeChunks\<close> wraps around.
\<close>

definition fits :: "int64 \<Rightarrow> ChunkInfo \<Rightarrow> bool" where
  "fits minGap c \<longleftrightarrow>
     0 \<le> sint (SourceOffset c) \<and> 0 \<le> sint (Size c)
     \<and> sint (SourceOffset c) + sint (Size c) + sint minGap < 2 ^ 63"

section \<open>The plan: mapped and missing chunks together\<close>

text \<open>
  The bytes of the remote file a chunk stands for, read on mathematical integers:
  from its target offset (inclusive) to its target offset plus its size (exclusive).
\<close>

definition target_begin :: "ChunkInfo \<Rightarrow> int" where
  "target_begin c = sint (TargetOffset c)"

definition target_end :: "ChunkInfo \<Rightarrow> int" where
  "target_end c = sint (TargetOffset c) + sint (Size c)"

definition extent :: "ChunkInfo \<Rightarrow> int set" where
  "extent c = {target_begin c ..< target_end c}"

text \<open>No two chunks of a list share a byte of the remote file.\<close>

fun pairwise_disjoint :: "ChunkInfo list \<Rightarrow> bool" where
  "pairwise_disjoint [] \<longleftrightarrow> True"
| "pairwise_disjoint (c # cs) \<longleftrightarrow> (\<forall>d\<in>set cs. extent c \<inter> extent d = {}) \<and> pairwise_disjoint cs"

text \<open>
  The plan of the specification: the mapped (reuse) chunks and the missing (fetch)
  chunks, merged by target offset.
\<close>

fun merge_by_target :: "ChunkInfo list \<Rightarrow> ChunkInfo list \<Rightarrow> ChunkInfo list" where
  "merge_by_target [] ys = ys"
| "merge_by_target xs [] = xs"
| "merge_by_target (x # xs) (y # ys) =
     (if TargetOffset x \<le>s TargetOffset y then x # merge_by_target xs (y # ys)
      else y # merge_by_target (x # xs) ys)"

definition planned_chunks :: "ChunksMapper \<Rightarrow> ChunkInfo list" where
  "planned_chunks mapper = merge_by_target (GetMappedChunks mapper) (GetMissingChunks mapper)"

text \<open>
  The loop of \<open>GetMissingChunks\<close> read as a recursion over the sorted chunks from the
  cursor \<open>p\<close>, and the chunk it appends for the bytes from \<open>p\<close> up to \<open>q\<close>.
\<close>

definition gap :: "int64 \<Rightarrow> int64 \<Rightarrow> ChunkInfo" where
  "gap p q = \<lparr>Size = q - p, SourceOffset = p, TargetOffset = p\<rparr>"

fun missing_from :: "int64 \<Rightarrow> ChunkInfo list \<Rightarrow> int64 \<Rightarrow> ChunkInfo list" where
  "missing_from p [] r = (if p \<noteq> r then [gap p r] else [])"
| "missing_from p (c # cs) r =
     (if p \<noteq> TargetOffset c then [gap p (TargetOffset c)] else [])
     @ missing_from (TargetOffset c + Size c) cs r"

text \<open>
  \<open>tiles p cs r\<close>: the chunks of \<open>cs\<close>, in this order, each of positive size, each
  starting where the one before it ends, lead from \<open>p\<close> to \<open>r\<close>.
\<close>

fun tiles :: "int \<Rightarrow> ChunkInfo list \<Rightarrow> int \<Rightarrow> bool" where
  "tiles p [] r \<longleftrightarrow> p = r"
| "tiles p (c # cs) r \<longleftrightarrow> target_begin c = p \<and> 0 < sint (Size c) \<and> tiles (target_end c) cs r"

section \<open>int64 arithmetic without wrap-around\<close>

lemma sint_add64:
  "- (2 ^ 63) \<le> sint a + sint b \<Longrightarrow> sint a + sint b < 2 ^ 63 \<Longrightarrow>
     sint (a + b :: int64) = sint a + sint b"
  by (simp add: sint_word_ariths signed_take_bit_int_eq_self)

lemma sint_sub64:
  "- (2 ^ 63) \<le> sint a - sint b \<Longrightarrow> sint a - sint b < 2 ^ 63 \<Longrightarrow>
     sint (a - b :: int64) = sint a - sint b"
  by (simp add: sint_word_ariths signed_take_bit_int_eq_self)

lemma sint_mult64:
  "- (2 ^ 63) \<le> sint a * sint b \<Longrightarrow> sint a * sint b < 2 ^ 63 \<Longrightarrow>
     sint (a * b :: int64) = sint a * sint b"
  by (simp add: sint_word_ariths signed_take_bit_int_eq_self)

lemma sint64_bounds: "- (2 ^ 63) \<le> sint (a :: int64)" "sint (a :: int64) < 2 ^ 63"
  using sint_ge[of a] sint_lt[of a] by simp_all

lemma sint64_eq_iff: "(a :: int64) = b \<longleftrightarrow> sint a = sint b"
  by (rule word_eq_iff_signed)

lemma sint_of_int64:
  "- (2 ^ 63) \<le> k \<Longrightarrow> k < 2 ^ 63 \<Longrightarrow> sint (word_of_int k :: int64) = k"
  by (simp add: sint_sbintrunc' signed_take_bit_int_eq_self)

lemma sint_of_nat64: "n < 2 ^ 63 \<Longrightarrow> sint (word_of_nat n :: int64) = int n"
  by (simp add: signed_of_nat signed_take_bit_int_eq_self)

section \<open>Properties of \<open>Seek\<close>\<close>

text \<open>
  C9. For \<open>whence\<close> 0, 1 and 2, \<open>Seek\<close> sets the logical offset to \<open>offset\<close>,
  \<open>Offset + offset\<close> and \<open>Size + offset\<close> (int64 arithmetic) and returns the argument
  \<open>offset\<close> itself with no error, not the resulting position; for every other
  \<open>whence\<close> it returns \<open>(-1, error)\<close> and leaves the receiver as it was.
\<close>

theorem Seek_whence:
  "(whence = 0 \<longrightarrow> Seek h offset whence = ((offset, None), h\<lparr>Offset := offset\<rparr>))
   \<and> (whence = 1 \<longrightarrow> Seek h offset whence = ((offset, None), h\<lparr>Offset := Offset h + offset\<rparr>))
   \<and> (whence = 2 \<longrightarrow> Seek h offset whence = ((offset, None), h\<lparr>Offset := Size_h h + offset\<rparr>))
   \<and> (whence \<notin> {0, 1, 2} \<longrightarrow>
        Seek h offset whence = ((- 1, Some (UnknownWhence whence)), h)
        \<and> Offset (snd (Seek h offset whence)) = Offset h)"
  by (simp add: Seek_def)

theorem Seek_whence_witness:
  "Seek \<lparr>URL = ''http://host/file'', Offset = 100, Size_h = 1000, cacheBegin = 0, cacheEnd = 0,
          readerCache = [], client = None\<rparr> 7 1
   = ((7, None), \<lparr>URL = ''http://host/file'', Offset = 107, Size_h = 1000, cacheBegin = 0,
          cacheEnd = 0, readerCache = [], client = None\<rparr>)
   \<and> fst (Seek \<lparr>URL = ''http://host/file'', Offset = 100, Size_h = 1000, cacheBegin = 0,
          cacheEnd = 0, readerCache = [], client = None\<rparr> 7 3) = (- 1, Some (UnknownWhence 3))"
  using Seek_whence [of 1 "\<lparr>URL = ''http://host/file'', Offset = 100, Size_h = 1000,
      cacheBegin = 0, cacheEnd = 0, readerCache = [], client = None\<rparr>" 7]
    Seek_whence [of 3 "\<lparr>URL = ''http://host/file'', Offset = 100, Size_h = 1000,
      cacheBegin = 0, cacheEnd = 0, readerCache = [], client = None\<rparr>" 7]
  by simp

section \<open>Properties of \<open>createChunks\<close>\<close>

lemma createChunks_length: "length (createChunks zsync strongMatches offset) = length strongMatches"
  by (simp add: createChunks_def)

lemma createChunks_nth:
  "i < length strongMatches \<Longrightarrow>
     SourceOffset (createChunks zsync strongMatches offset ! i) = offset
     \<and> TargetOffset (createChunks zsync strongMatches offset ! i)
         = ChunkOffset (strongMatches ! i) * BlockSize zsync"
  by (simp add: createChunks_def newChunk_def Let_def)

text \<open>
  In int64 arithmetic the test and the bound hold for every input: the sum
  \<open>TargetOffset + Size\<close> of the truncated chunk is \<open>RemoteFileSize\<close> itself.
\<close>

lemma createChunks_size_int64:
  "c \<in> set (createChunks zsync strongMatches offset) \<Longrightarrow>
     Size c = (if RemoteFileSize zsync <s TargetOffset c + BlockSize zsync
               then RemoteFileSize zsync - TargetOffset c else BlockSize zsync)
     \<and> TargetOffset c + Size c \<le>s RemoteFileSize zsync"
  by (auto simp: createChunks_def newChunk_def Let_def)

text \<open>
  C5, as amended. Let the remote file size and the target offset of an emitted chunk
  be non-negative, and let the target offset plus \<open>BlockSize\<close> be within int64. Then,
  on mathematical integers, the chunk's size is \<open>BlockSize\<close>, except when its target
  offset plus \<open>BlockSize\<close> exceeds the remote file size, in which case it is the
  remote file size minus the target offset; hence the target offset plus the size is
  at most the remote file size.
\<close>

theorem createChunks_truncation:
  assumes "c \<in> set (createChunks zsync strongMatches offset)"
    and "0 \<le> sint (RemoteFileSize zsync)"
    and "0 \<le> sint (TargetOffset c)"
    and "sint (TargetOffset c) + sint (BlockSize zsync) < 2 ^ 63"
  shows "sint (Size c)
           = (if sint (RemoteFileSize zsync) < sint (TargetOffset c) + sint (BlockSize zsync)
              then sint (RemoteFileSize zsync) - sint (TargetOffset c)
              else sint (BlockSize zsync))
     \<and> sint (TargetOffset c) + sint (Size c) \<le> sint (RemoteFileSize zsync)"
proof -
  have add: "sint (TargetOffset c + BlockSize zsync)
      = sint (TargetOffset c) + sint (BlockSize zsync)"
    by (rule sint_add64) (use assms(3,4) sint64_bounds[of "BlockSize zsync"] in simp_all)
  have sub: "sint (RemoteFileSize zsync - TargetOffset c)
      = sint (RemoteFileSize zsync) - sint (TargetOffset c)"
    by (rule sint_sub64)
      (use assms(2,3) sint64_bounds[of "RemoteFileSize zsync"]
         sint64_bounds[of "TargetOffset c"] in simp_all)
  from createChunks_size_int64[OF assms(1)]
  have sz: "Size c = (if RemoteFileSize zsync <s TargetOffset c + BlockSize zsync
                      then RemoteFileSize zsync - TargetOffset c else BlockSize zsync)"
    by simp
  show ?thesis
  proof (cases "RemoteFileSize zsync <s TargetOffset c + BlockSize zsync")
    case True
    then have "sint (RemoteFileSize zsync) < sint (TargetOffset c) + sint (BlockSize zsync)"
      using add by (simp add: word_sless_alt)
    moreover have "sint (Size c) = sint (RemoteFileSize zsync) - sint (TargetOffset c)"
      using sz True sub by simp
    ultimately show ?thesis by simp
  next
    case False
    then have "\<not> sint (RemoteFileSize zsync) < sint (TargetOffset c) + sint (BlockSize zsync)"
      using add by (simp add: word_sless_alt)
    moreover have "sint (Size c) = sint (BlockSize zsync)" using sz False by simp
    ultimately show ?thesis by simp
  qed
qed

theorem createChunks_truncation_witness:
  "createChunks \<lparr>BlockSize = 16, ChecksumsIndex = (), RemoteFileUrl = ''u'',
                  RemoteFileSize = 70, RemoteFileSHA1 = ''''\<rparr>
       [\<lparr>ChunkOffset = 4\<rparr>, \<lparr>ChunkOffset = 1\<rparr>] 100
     = [\<lparr>Size = 6, SourceOffset = 100, TargetOffset = 64\<rparr>,
        \<lparr>Size = 16, SourceOffset = 100, TargetOffset = 16\<rparr>]
   \<and> sint (Size \<lparr>Size = 6, SourceOffset = 100, TargetOffset = 64\<rparr>) = 70 - 64
   \<and> sint (TargetOffset \<lparr>Size = 6, SourceOffset = 100, TargetOffset = 64\<rparr>)
       + sint (Size \<lparr>Size = 6, SourceOffset = 100, TargetOffset = 64\<rparr>) \<le> 70"
proof -
  have ev: "createChunks \<lparr>BlockSize = 16, ChecksumsIndex = (), RemoteFileUrl = ''u'',
                  RemoteFileSize = 70, RemoteFileSHA1 = ''''\<rparr>
       [\<lparr>ChunkOffset = 4\<rparr>, \<lparr>ChunkOffset = 1\<rparr>] 100
     = [\<lparr>Size = 6, SourceOffset = 100, TargetOffset = 64\<rparr>,
        \<lparr>Size = 16, SourceOffset = 100, TargetOffset = 16\<rparr>]"
    by (simp add: createChunks_def newChunk_def)
  show ?thesis
    using createChunks_truncation [of "\<lparr>Size = 6, SourceOffset = 100, TargetOffset = 64\<rparr>"
        "\<lparr>BlockSize = 16, ChecksumsIndex = (), RemoteFileUrl = ''u'',
          RemoteFileSize = 70, RemoteFileSHA1 = ''''\<rparr>"
        "[\<lparr>ChunkOffset = 4\<rparr>, \<lparr>ChunkOffset = 1\<rparr>]" 100]
    unfolding ev by simp
qed

text \<open>
  C5 as stated fails where \<open>TargetOffset + BlockSize\<close> wraps around. For block
  576460752303423487 of 16 bytes the target offset is \<open>2\<^sup>6\<^sup>3 - 16\<close>; the sum with the
  block size wraps to a negative number, which is not greater than the remote file
  size 70, so the size stays 16: it is not the remote file size minus the target
  offset, and the chunk ends at \<open>2\<^sup>6\<^sup>3\<close>, beyond the remote file.
\<close>

theorem createChunks_overflow_counterexample:
  "createChunks \<lparr>BlockSize = 16, ChecksumsIndex = (), RemoteFileUrl = ''u'',
                  RemoteFileSize = 70, RemoteFileSHA1 = ''''\<rparr>
       [\<lparr>ChunkOffset = 576460752303423487\<rparr>] 0
     = [\<lparr>Size = 16, SourceOffset = 0, TargetOffset = 9223372036854775792\<rparr>]
   \<and> sint (70 :: int64) < sint (9223372036854775792 :: int64) + sint (16 :: int64)
   \<and> \<not> sint (9223372036854775792 :: int64) + sint (16 :: int64) \<le> sint (70 :: int64)"
  by (simp add: createChunks_def newChunk_def)

section \<open>Properties of \<open>NewZSync\<close>\<close>

lemma LastIndex_absent: "CHR ''/'' \<notin> set s \<Longrightarrow> LastIndex s ''/'' = - 1"
  by (induction s) (auto simp: Let_def)

lemma LastIndex_last_slash:
  "CHR ''/'' \<notin> set seg \<Longrightarrow> LastIndex (base @ CHR ''/'' # seg) ''/'' = int (length base)"
  by (induction base) (auto simp: Let_def LastIndex_absent)

lemma LastIndex_bounds: "- 1 \<le> LastIndex s substr \<and> LastIndex s substr \<le> int (length s)"
  by (induction s) (auto simp: Let_def)

lemma LastIndex_found:
  "0 \<le> LastIndex s substr \<Longrightarrow> prefix substr (drop (nat (LastIndex s substr)) s)"
proof (induction s)
  case Nil then show ?case by (auto split: if_splits)
next
  case (Cons c s)
  show ?case
  proof (cases "0 \<le> LastIndex s substr")
    case True
    then have "nat (LastIndex s substr + 1) = Suc (nat (LastIndex s substr))" by simp
    with True Cons.IH show ?thesis by (simp add: Let_def)
  next
    case False
    with Cons.prems show ?thesis by (auto simp: Let_def split: if_splits)
  qed
qed

lemma LastIndex_latest:
  "prefix substr (drop i s) \<Longrightarrow> i \<le> length s \<Longrightarrow> int i \<le> LastIndex s substr"
proof (induction s arbitrary: i)
  case Nil then show ?case by simp
next
  case (Cons c s)
  show ?case
  proof (cases i)
    case 0
    with Cons.prems show ?thesis using LastIndex_bounds[of s substr] by (auto simp: Let_def)
  next
    case (Suc j)
    with Cons.prems have "int j \<le> LastIndex s substr" by (intro Cons.IH) simp_all
    with Suc show ?thesis by (simp add: Let_def)
  qed
qed

text \<open>
  Without a \<open>/\<close> in the URL of the control file \<open>LastIndex\<close> is -1 and the slice
  expression panics. A URL that \<open>http.Get\<close> has fetched has a \<open>/\<close>.
\<close>

lemma NewZSync_no_slash:
  "\<not> prefix ''http'' (URL_c c) \<Longrightarrow> \<not> prefix ''ftp'' (URL_c c) \<Longrightarrow> CHR ''/'' \<notin> set zsyncFileUrl \<Longrightarrow>
     NewZSync zsyncFileUrl (Inr c) = Inl SliceBoundsOutOfRange"
  by (simp add: NewZSync_def HasPrefix_def LastIndex_absent slice_to_def Let_def)

text \<open>
  C8. A control URL that starts with neither \<open>http\<close> nor \<open>ftp\<close> is resolved against
  the URL of the control file: when that URL is \<open>base\<close>, a \<open>/\<close>, and a last segment
  without \<open>/\<close>, the resulting URL is \<open>base\<close> (the URL truncated at its last \<open>/\<close>),
  followed by \<open>/\<close>, followed by the relative URL. A control URL that starts with
  \<open>http\<close> or \<open>ftp\<close> is left unchanged.
\<close>

theorem NewZSync_relative_url:
  "(\<not> prefix ''http'' (URL_c c) \<and> \<not> prefix ''ftp'' (URL_c c) \<and> CHR ''/'' \<notin> set seg \<longrightarrow>
      NewZSync (base @ ''/'' @ seg) (Inr c)
        = Inr (Inr \<lparr>BlockSize = BlockSize_c c, ChecksumsIndex = ChecksumIndex c,
                    RemoteFileUrl = base @ ''/'' @ URL_c c, RemoteFileSize = FileLength c,
                    RemoteFileSHA1 = SHA1 c\<rparr>))
   \<and> (prefix ''http'' (URL_c c) \<or> prefix ''ftp'' (URL_c c) \<longrightarrow>
      NewZSync zsyncFileUrl (Inr c)
        = Inr (Inr \<lparr>BlockSize = BlockSize_c c, ChecksumsIndex = ChecksumIndex c,
                    RemoteFileUrl = URL_c c, RemoteFileSize = FileLength c,
                    RemoteFileSHA1 = SHA1 c\<rparr>))"
  by (auto simp: NewZSync_def HasPrefix_def LastIndex_last_slash slice_to_def Let_def)

theorem NewZSync_relative_url_witness:
  "NewZSync ''http://example.com/dir/file.zsync''
     (Inr \<lparr>BlockSize_c = 2048, ChecksumIndex = (), URL_c = ''file.bin'', FileLength = 70,
           SHA1 = ''da39''\<rparr>)
   = Inr (Inr \<lparr>BlockSize = 2048, ChecksumsIndex = (),
               RemoteFileUrl = ''http://example.com/dir/file.bin'', RemoteFileSize = 70,
               RemoteFileSHA1 = ''da39''\<rparr>)
   \<and> NewZSync ''http://example.com/dir/file.zsync''
     (Inr \<lparr>BlockSize_c = 2048, ChecksumIndex = (), URL_c = ''https://mirror/file.bin'',
           FileLength = 70, SHA1 = ''da39''\<rparr>)
   = Inr (Inr \<lparr>BlockSize = 2048, ChecksumsIndex = (),
               RemoteFileUrl = ''https://mirror/file.bin'', RemoteFileSize = 70,
               RemoteFileSHA1 = ''da39''\<rparr>)"
  using NewZSync_relative_url [of "\<lparr>BlockSize_c = 2048, ChecksumIndex = (), URL_c = ''file.bin'',
        FileLength = 70, SHA1 = ''da39''\<rparr>" "''file.zsync''" "''http://example.com/dir''"]
    NewZSync_relative_url [of "\<lparr>BlockSize_c = 2048, ChecksumIndex = (),
        URL_c = ''https://mirror/file.bin'', FileLength = 70, SHA1 = ''da39''\<rparr>" "[]" "[]"
        "''http://example.com/dir/file.zsync''"]
  by simp

section \<open>Properties of \<open>Request\<close>\<close>


lemma Contains_sublist: "Contains s substr \<longleftrightarrow> sublist substr s"
  by (induction s) (auto simp: sublist_Cons_right)

lemma body_length:
  "length bs < 2 ^ 63 \<Longrightarrow> (word_of_nat (length bs) = (sz :: int64)) \<longleftrightarrow> int (length bs) = sint sz"
proof -
  assume l: "length bs < 2 ^ 63"
  have "sint (word_of_nat (length bs) :: int64) = int (length bs)"
    using l by (simp add: signed_of_nat signed_take_bit_int_eq_self)
  then show ?thesis by (auto simp: sint64_eq_iff)
qed

text \<open>
  The decimal text of the two ends of the range, when nothing wraps around.
\<close>

lemma range_numbers:
  assumes "0 \<le> sint (a :: int64)" and "1 \<le> sint a + sint (sz :: int64)"
    and "sint a + sint sz < 2 ^ 63"
  shows "format_int64 a = format_nat (nat (sint a))"
    and "format_int64 (a + sz - 1) = format_nat (nat (sint a + sint sz - 1))"
proof -
  show "format_int64 a = format_nat (nat (sint a))"
    using assms(1) by (simp add: format_int64_def)
  have s: "sint (a + sz) = sint a + sint sz"
    using assms sint64_bounds[of a] sint64_bounds[of sz] by (simp add: sint_add64)
  have "sint (a + sz - 1) = sint (a + sz) - sint (1 :: int64)"
    using assms s sint64_bounds[of "a + sz"] by (subst sint_sub64) simp_all
  then have "sint (a + sz - 1) = sint a + sint sz - 1" using s by simp
  then show "format_int64 (a + sz - 1) = format_nat (nat (sint a + sint sz - 1))"
    using assms(2) by (simp add: format_int64_def)
qed

text \<open>
  C7, as amended. \<open>Request(size)\<close> asks \<open>http.NewRequest\<close> for a request; when the URL
  is rejected it returns the request-creation error and no HTTP request is
  performed. When the URL is accepted it calls \<open>client.Do\<close> once, for a GET of the
  URL with the header \<open>Range: bytes=a-b\<close>, where \<open>a\<close> and \<open>b\<close> are the int64 values
  \<open>offset\<close> and \<open>offset+size-1\<close> in decimal (the numbers \<open>offset\<close> and \<open>offset+size-1\<close>
  when \<open>0 \<le> offset\<close>, \<open>1 \<le> offset+size\<close> and \<open>offset+size < 2^63\<close>); the HTTP requests
  performed are exactly those the client performs in that call (that GET, and one
  more request for each redirect the client follows). When \<open>client.Do\<close> returns an
  error, \<open>Request\<close> returns the executing-request error. When it returns a response:
  a status 404 yields the error \<open>URL not found\<close>, any other status than 206 the error
  \<open>ranged request not supported\<close>, a status 206 with a \<open>Content-Encoding\<close> header
  containing \<open>gzip\<close> the gzip error, and a status 206 without \<open>gzip\<close> whose body fails
  to be read that read error. When the body is read to its end without error (and
  has fewer than \<open>2^63\<close> bytes), \<open>Request\<close> returns \<open>nil\<close> if and only if the status is
  206, the \<open>Content-Encoding\<close> header does not contain \<open>gzip\<close> and the body has \<open>size\<close>
  bytes; a 206 response without \<open>gzip\<close> whose body has another length yields the range
  size mismatch error.
\<close>

theorem Request_outcome:
  "(NewRequest_error env (URL h) = Some e \<longrightarrow>
      fst (Request env h sz) = Some (CreatingRangeRequest (URL h) e)
      \<and> snd (snd (Request env h sz)) = [])
   \<and> (NewRequest_error env (URL h) = None
        \<and> Do env (range_request h (Offset h) (Offset h + sz)) = (performed, outcome) \<longrightarrow>
      snd (snd (Request env h sz)) = performed
      \<and> Method (range_request h (Offset h) (Offset h + sz)) = ''GET''
      \<and> RequestURL (range_request h (Offset h) (Offset h + sz)) = URL h
      \<and> map_of (Header (range_request h (Offset h) (Offset h + sz))) ''Range''
          = Some (''bytes='' @ format_int64 (Offset h) @ ''-'' @ format_int64 (Offset h + sz - 1))
      \<and> (0 \<le> sint (Offset h) \<and> 1 \<le> sint (Offset h) + sint sz
            \<and> sint (Offset h) + sint sz < 2 ^ 63 \<longrightarrow>
          map_of (Header (range_request h (Offset h) (Offset h + sz))) ''Range''
            = Some (''bytes='' @ format_nat (nat (sint (Offset h))) @ ''-''
                      @ format_nat (nat (sint (Offset h) + sint sz - 1))))
      \<and> (\<forall>err. outcome = Inl err \<longrightarrow>
            fst (Request env h sz) = Some (ExecutingRequest (URL h) err))
      \<and> (\<forall>resp. outcome = Inr resp \<longrightarrow>
            (StatusCode resp = 404 \<longrightarrow> fst (Request env h sz) = Some URLNotFound)
          \<and> (StatusCode resp \<noteq> 404 \<and> StatusCode resp \<noteq> 206 \<longrightarrow>
               fst (Request env h sz) = Some RangedRequestNotSupported)
          \<and> (StatusCode resp = 206
               \<and> Contains (Header_Get (ResponseHeader resp) ''Content-Encoding'') ''gzip'' \<longrightarrow>
               fst (Request env h sz) = Some ResponseGZiped)
          \<and> (\<forall>err. StatusCode resp = 206
               \<and> \<not> Contains (Header_Get (ResponseHeader resp) ''Content-Encoding'') ''gzip''
               \<and> BodyError resp = Some err \<longrightarrow>
               fst (Request env h sz) = Some err)
          \<and> (BodyError resp = None \<and> length (Body resp) < 2 ^ 63 \<longrightarrow>
               (fst (Request env h sz) = None \<longleftrightarrow>
                  StatusCode resp = 206
                  \<and> \<not> Contains (Header_Get (ResponseHeader resp) ''Content-Encoding'') ''gzip''
                  \<and> int (length (Body resp)) = sint sz)
             \<and> (StatusCode resp = 206
                  \<and> \<not> Contains (Header_Get (ResponseHeader resp) ''Content-Encoding'') ''gzip''
                  \<and> int (length (Body resp)) \<noteq> sint sz \<longrightarrow>
                  fst (Request env h sz)
                    = Some (RangeSizeMismatch (word_of_nat (length (Body resp))) sz)))))"
proof (intro conjI impI allI)
  assume "NewRequest_error env (URL h) = Some e"
  then show "fst (Request env h sz) = Some (CreatingRangeRequest (URL h) e)"
    and "snd (snd (Request env h sz)) = []"
    by (simp_all add: Request_def doRangeRequest_def)
next
  assume a: "NewRequest_error env (URL h) = None
        \<and> Do env (range_request h (Offset h) (Offset h + sz)) = (performed, outcome)"
  have r: "range_request (h\<lparr>cacheBegin := Offset h, cacheEnd := Offset h + sz\<rparr>) = range_request h"
    by (simp add: range_request_def fun_eq_iff)
  show "snd (snd (Request env h sz)) = performed"
    using a by (simp add: Request_def doRangeRequest_def Let_def r split: sum.splits option.splits)
  show "Method (range_request h (Offset h) (Offset h + sz)) = ''GET''"
    by (simp add: range_request_def)
  show "RequestURL (range_request h (Offset h) (Offset h + sz)) = URL h"
    by (simp add: range_request_def)
  show "map_of (Header (range_request h (Offset h) (Offset h + sz))) ''Range''
          = Some (''bytes='' @ format_int64 (Offset h) @ ''-'' @ format_int64 (Offset h + sz - 1))"
    by (simp add: range_request_def)
  {
    assume "0 \<le> sint (Offset h) \<and> 1 \<le> sint (Offset h) + sint sz
            \<and> sint (Offset h) + sint sz < 2 ^ 63"
    then show "map_of (Header (range_request h (Offset h) (Offset h + sz))) ''Range''
            = Some (''bytes='' @ format_nat (nat (sint (Offset h))) @ ''-''
                      @ format_nat (nat (sint (Offset h) + sint sz - 1)))"
      using range_numbers[of "Offset h" sz] by (simp add: range_request_def)
  }
  {
    fix err assume "outcome = Inl err"
    then show "fst (Request env h sz) = Some (ExecutingRequest (URL h) err)"
      using a by (simp add: Request_def doRangeRequest_def Let_def r)
  }
  {
    fix resp assume o: "outcome = Inr resp"
    {
      assume "StatusCode resp = 404"
      then show "fst (Request env h sz) = Some URLNotFound"
        using a o by (simp add: Request_def doRangeRequest_def Let_def r)
    }
    {
      assume "StatusCode resp \<noteq> 404 \<and> StatusCode resp \<noteq> 206"
      then show "fst (Request env h sz) = Some RangedRequestNotSupported"
        using a o by (simp add: Request_def doRangeRequest_def Let_def r)
    }
    {
      assume "StatusCode resp = 206
               \<and> Contains (Header_Get (ResponseHeader resp) ''Content-Encoding'') ''gzip''"
      then show "fst (Request env h sz) = Some ResponseGZiped"
        using a o by (simp add: Request_def doRangeRequest_def Let_def r)
    }
    {
      fix err
      assume "StatusCode resp = 206
               \<and> \<not> Contains (Header_Get (ResponseHeader resp) ''Content-Encoding'') ''gzip''
               \<and> BodyError resp = Some err"
      then show "fst (Request env h sz) = Some err"
        using a o by (simp add: Request_def doRangeRequest_def Let_def r)
    }
    {
      assume b: "BodyError resp = None \<and> length (Body resp) < 2 ^ 63"
      then have l: "(word_of_nat (length (Body resp)) = sz) \<longleftrightarrow> int (length (Body resp)) = sint sz"
        using body_length[of "Body resp" sz] by simp
      show "fst (Request env h sz) = None \<longleftrightarrow>
                  StatusCode resp = 206
                  \<and> \<not> Contains (Header_Get (ResponseHeader resp) ''Content-Encoding'') ''gzip''
                  \<and> int (length (Body resp)) = sint sz"
        using a o b l by (simp add: Request_def doRangeRequest_def Let_def r)
      {
        assume "StatusCode resp = 206
                  \<and> \<not> Contains (Header_Get (ResponseHeader resp) ''Content-Encoding'') ''gzip''
                  \<and> int (length (Body resp)) \<noteq> sint sz"
        then show "fst (Request env h sz)
                    = Some (RangeSizeMismatch (word_of_nat (length (Body resp))) sz)"
          using a o b l by (simp add: Request_def doRangeRequest_def Let_def r)
      }
    }
  }
qed


theorem Request_outcome_witness:
  "fst (Request (answering_env \<lparr>StatusCode = 206, ResponseHeader = [], Body = [1, 2, 3], BodyError = None\<rparr>)
         \<lparr>URL = ''http://host/file'', Offset = 100, Size_h = 1000, cacheBegin = 0,
           cacheEnd = 0, readerCache = [], client = None\<rparr> 3) = None
   \<and> snd (snd (Request (answering_env \<lparr>StatusCode = 206, ResponseHeader = [], Body = [1, 2, 3], BodyError = None\<rparr>)
         \<lparr>URL = ''http://host/file'', Offset = 100, Size_h = 1000, cacheBegin = 0,
           cacheEnd = 0, readerCache = [], client = None\<rparr> 3))
       = [\<lparr>Method = ''GET'', RequestURL = ''http://host/file'',
           Header = [(''Range'', ''bytes=100-102''), (''Accept-Encoding'', ''identity'')]\<rparr>]
   \<and> fst (Request (answering_env \<lparr>StatusCode = 404, ResponseHeader = [], Body = [], BodyError = None\<rparr>)
         \<lparr>URL = ''http://host/file'', Offset = 100, Size_h = 1000, cacheBegin = 0,
           cacheEnd = 0, readerCache = [], client = None\<rparr> 3) = Some URLNotFound
   \<and> fst (Request rejecting_env
         \<lparr>URL = ''::'', Offset = 100, Size_h = 1000, cacheBegin = 0,
           cacheEnd = 0, readerCache = [], client = None\<rparr> 3)
       = Some (CreatingRangeRequest ''::'' (Foreign ''parse: missing protocol scheme''))
   \<and> snd (snd (Request rejecting_env
         \<lparr>URL = ''::'', Offset = 100, Size_h = 1000, cacheBegin = 0,
           cacheEnd = 0, readerCache = [], client = None\<rparr> 3)) = []"
  using Request_outcome [of "answering_env \<lparr>StatusCode = 206, ResponseHeader = [], Body = [1, 2, 3], BodyError = None\<rparr>"
      "\<lparr>URL = ''http://host/file'', Offset = 100, Size_h = 1000, cacheBegin = 0,
           cacheEnd = 0, readerCache = [], client = None\<rparr>" "Foreign []" 3
      "[\<lparr>Method = ''GET'', RequestURL = ''http://host/file'',
           Header = [(''Range'', ''bytes=100-102''), (''Accept-Encoding'', ''identity'')]\<rparr>]"
      "Inr \<lparr>StatusCode = 206, ResponseHeader = [], Body = [1, 2, 3], BodyError = None\<rparr>"]
    Request_outcome [of "answering_env \<lparr>StatusCode = 404, ResponseHeader = [], Body = [], BodyError = None\<rparr>"
      "\<lparr>URL = ''http://host/file'', Offset = 100, Size_h = 1000, cacheBegin = 0,
           cacheEnd = 0, readerCache = [], client = None\<rparr>" "Foreign []" 3
      "[\<lparr>Method = ''GET'', RequestURL = ''http://host/file'',
           Header = [(''Range'', ''bytes=100-102''), (''Accept-Encoding'', ''identity'')]\<rparr>]"
      "Inr \<lparr>StatusCode = 404, ResponseHeader = [], Body = [], BodyError = None\<rparr>"]
    Request_outcome [of rejecting_env
      "\<lparr>URL = ''::'', Offset = 100, Size_h = 1000, cacheBegin = 0,
           cacheEnd = 0, readerCache = [], client = None\<rparr>" "Foreign ''parse: missing protocol scheme''" 3 "[]" "Inl (Foreign [])"]
  by (simp add: answering_env_def rejecting_env_def range_request_def format_int64_def
      format_nat.simps Header_Get_def)

text \<open>
  C7 as stated fails in both directions. The client of the source follows
  redirects: when the server redirects once, the one call of \<open>client.Do\<close> performs
  two GETs and \<open>Request\<close> returns \<open>nil\<close>. And where \<open>http.NewRequest\<close> rejects the URL
  (as it does for \<open>::\<close>), \<open>Request\<close> returns the error of \<open>doRangeRequest\<close> and no GET
  is performed.
\<close>

theorem Request_redirect_counterexample:
  "fst (Request redirecting_env
         \<lparr>URL = ''http://host/file'', Offset = 100, Size_h = 1000, cacheBegin = 0,
           cacheEnd = 0, readerCache = [], client = None\<rparr> 3) = None
   \<and> snd (snd (Request redirecting_env
         \<lparr>URL = ''http://host/file'', Offset = 100, Size_h = 1000, cacheBegin = 0,
           cacheEnd = 0, readerCache = [], client = None\<rparr> 3))
       = [\<lparr>Method = ''GET'', RequestURL = ''http://host/file'',
           Header = [(''Range'', ''bytes=100-102''), (''Accept-Encoding'', ''identity'')]\<rparr>,
          \<lparr>Method = ''GET'', RequestURL = ''http://mirror/file'',
           Header = [(''Range'', ''bytes=100-102''), (''Accept-Encoding'', ''identity'')]\<rparr>]
   \<and> fst (Request rejecting_env
         \<lparr>URL = ''::'', Offset = 100, Size_h = 1000, cacheBegin = 0,
           cacheEnd = 0, readerCache = [], client = None\<rparr> 3)
       = Some (CreatingRangeRequest ''::'' (Foreign ''parse: missing protocol scheme''))
   \<and> snd (snd (Request rejecting_env
         \<lparr>URL = ''::'', Offset = 100, Size_h = 1000, cacheBegin = 0,
           cacheEnd = 0, readerCache = [], client = None\<rparr> 3)) = []"
  by (simp add: Request_def doRangeRequest_def redirecting_env_def rejecting_env_def
      range_request_def format_int64_def format_nat.simps Header_Get_def)

section \<open>Properties of \<open>WriteChunk\<close>\<close>

text \<open>
  C6. \<open>WriteChunk\<close> seeks the source to \<open>chunk.SourceOffset\<close>, then the target to
  \<open>chunk.TargetOffset\<close>, then copies \<open>chunk.Size\<close> bytes with \<open>io.CopyN\<close>. A failing seek
  is returned as an error (and nothing further is done). When \<open>io.CopyN\<close> returns no
  error, \<open>WriteChunk\<close> returns \<open>nil\<close>. When it returns \<open>io.EOF\<close> after \<open>n < chunk.Size\<close>
  bytes, \<open>chunk.Size - n\<close> zero bytes are written to the target, and \<open>WriteChunk\<close>
  returns \<open>nil\<close> unless that write fails. Every other error of the copy, and the
  error of the write of the zeros, is returned as an error. Here \<open>e1\<close>, \<open>e2\<close>, \<open>err\<close>
  and \<open>e3\<close> name what the four calls return, \<open>n\<close> being the count of \<open>io.CopyN\<close>.
\<close>

theorem WriteChunk_outcome:
  assumes "source_Seek io (SourceOffset chunk) source = (e1, source1)"
    and "target_Seek io (TargetOffset chunk) target = (e2, target1)"
    and "CopyN io (Size chunk) source1 target1 = ((n, err), source2, target2)"
    and "target_Write io (replicate (nat (sint (Size chunk) - sint n)) 0) target2 = (e3, target3)"
    and "0 \<le> sint n"
  shows "(e1 \<noteq> None \<longrightarrow>
            WriteChunk io chunk source target
              = Inr (Some (UnableToSeekSource (SourceOffset chunk)), source1, target))
     \<and> (e1 = None \<and> e2 \<noteq> None \<longrightarrow>
            WriteChunk io chunk source target
              = Inr (Some (UnableToSeekTarget (TargetOffset chunk)), source1, target1))
     \<and> (e1 = None \<and> e2 = None \<and> err = None \<longrightarrow>
            WriteChunk io chunk source target = Inr (None, source2, target2))
     \<and> (e1 = None \<and> e2 = None \<and> err = Some EOF \<and> sint n < sint (Size chunk) \<longrightarrow>
            WriteChunk io chunk source target
              = Inr (map_option (UnableToCopyBytes n) e3, source2, target3))
     \<and> (e1 = None \<and> e2 = None \<and> err \<noteq> None
          \<and> \<not> (err = Some EOF \<and> sint n < sint (Size chunk)) \<longrightarrow>
            WriteChunk io chunk source target
              = Inr (Some (UnableToCopyBytes n (the err)), source2, target2))"
proof -
  have sub: "sint (Size chunk - n) = sint (Size chunk) - sint n"
    if "sint n < sint (Size chunk)"
    by (rule sint_sub64) (use that assms(5) sint64_bounds[of "Size chunk"] in simp_all)
  show ?thesis
    using assms sub
    by (cases e1; cases e2; cases err; cases e3)
      (auto simp: WriteChunk_def make_bytes_def word_sless_alt)
qed

theorem WriteChunk_outcome_witness:
  "WriteChunk mem_io \<lparr>Size = 6, SourceOffset = 6, TargetOffset = 2\<rparr>
       \<lparr>bytes = [1, 2, 3, 4, 5, 6, 7, 8, 9, 10], cursor = 0\<rparr> \<lparr>bytes = [], cursor = 0\<rparr>
     = Inr (None, \<lparr>bytes = [1, 2, 3, 4, 5, 6, 7, 8, 9, 10], cursor = 10\<rparr>,
            \<lparr>bytes = [0, 0, 7, 8, 9, 10, 0, 0], cursor = 8\<rparr>)"
  using WriteChunk_outcome [where io = mem_io
      and chunk = "\<lparr>Size = 6, SourceOffset = 6, TargetOffset = 2\<rparr>"
      and source = "\<lparr>bytes = [1, 2, 3, 4, 5, 6, 7, 8, 9, 10], cursor = 0\<rparr>"
      and target = "\<lparr>bytes = [], cursor = 0\<rparr>"
      and ?e1.0 = None and ?e2.0 = None and ?e3.0 = None and err = "Some EOF" and n = 4
      and ?source1.0 = "\<lparr>bytes = [1, 2, 3, 4, 5, 6, 7, 8, 9, 10], cursor = 6\<rparr>"
      and ?target1.0 = "\<lparr>bytes = [], cursor = 2\<rparr>"
      and ?source2.0 = "\<lparr>bytes = [1, 2, 3, 4, 5, 6, 7, 8, 9, 10], cursor = 10\<rparr>"
      and ?target2.0 = "\<lparr>bytes = [0, 0, 7, 8, 9, 10], cursor = 6\<rparr>"
      and ?target3.0 = "\<lparr>bytes = [0, 0, 7, 8, 9, 10, 0, 0], cursor = 8\<rparr>"]
  by (simp add: mem_io_def mem_Seek_def mem_CopyN_def mem_Write_def Let_def
      numeral_eq_Suc)

text \<open>
  On files in memory: for a chunk with non-negative offsets and size \<open>WriteChunk\<close>
  succeeds, and the \<open>Size\<close> bytes of the target from \<open>TargetOffset\<close> are the bytes of
  the source from \<open>SourceOffset\<close>, followed by zeros where the source ends early.
\<close>

lemma mem_Write_window:
  "take (length bs) (drop (cursor f) (bytes (snd (mem_Write bs f)))) = bs"
  by (simp add: mem_Write_def)

lemma WriteChunk_mem_bytes:
  assumes "0 \<le> sint (SourceOffset c)" "0 \<le> sint (TargetOffset c)" "0 \<le> sint (Size c)"
  shows "\<exists>src' tgt'. WriteChunk mem_io c src tgt = Inr (None, src', tgt')
     \<and> take (nat (sint (Size c))) (drop (nat (sint (TargetOffset c))) (bytes tgt'))
         = take (nat (sint (Size c)))
             (drop (nat (sint (SourceOffset c))) (bytes src) @ replicate (nat (sint (Size c))) 0)"
proof -
  define k where "k = nat (sint (Size c))"
  define a where "a = nat (sint (SourceOffset c))"
  define b where "b = nat (sint (TargetOffset c))"
  define got where "got = take k (drop a (bytes src))"
  have k: "int k = sint (Size c)" using assms by (simp add: k_def)
  have le: "length got \<le> k" by (simp add: got_def)
  have "int k < 2 ^ 63" using sint64_bounds(2)[of "Size c"] k by simp
  then have "k < 2 ^ 63" by simp
  with le have "length got < 2 ^ 63" by simp
  then have n: "sint (word_of_nat (length got) :: int64) = int (length got)"
    by (simp add: signed_of_nat signed_take_bit_int_eq_self)
  define s1 where "s1 = src\<lparr>cursor := a\<rparr>"
  define s2 where "s2 = s1\<lparr>cursor := a + length got\<rparr>"
  define t1 where "t1 = tgt\<lparr>cursor := b\<rparr>"
  define t2 where "t2 = snd (mem_Write got t1)"
  have seek1: "source_Seek mem_io (SourceOffset c) src = (None, s1)"
    using assms by (simp add: mem_io_def mem_Seek_def s1_def a_def)
  have seek2: "target_Seek mem_io (TargetOffset c) tgt = (None, t1)"
    using assms by (simp add: mem_io_def mem_Seek_def t1_def b_def)
  have copy: "CopyN mem_io (Size c) s1 t1
      = ((word_of_nat (length got), if length got = k then None else Some EOF), s2, t2)"
    by (simp add: mem_io_def mem_CopyN_def Let_def s1_def s2_def t2_def got_def k_def)
  have c2: "cursor t2 = b + length got" by (simp add: t2_def t1_def mem_Write_def)
  have w2: "take (length got) (drop b (bytes t2)) = got"
    using mem_Write_window[of got t1] by (simp add: t2_def t1_def)
  have l2: "b + length got \<le> length (bytes t2)" by (simp add: t2_def t1_def mem_Write_def)
  show ?thesis
  proof (cases "length got = k")
    case True
    have "WriteChunk mem_io c src tgt = Inr (None, s2, t2)"
      using True by (simp add: WriteChunk_def seek1 seek2 copy)
    moreover have "take k (drop b (bytes t2)) = take k (drop a (bytes src) @ replicate k 0)"
      using w2 True by (simp add: got_def)
    ultimately show ?thesis by (simp add: k_def a_def b_def)
  next
    case False
    with le have lt: "length got < k" by simp
    define z where "z = replicate (k - length got) (0 :: byte)"
    define t3 where "t3 = snd (mem_Write z t2)"
    have sub: "sint (Size c - word_of_nat (length got)) = int k - int (length got)"
      using n k lt sint64_bounds[of "Size c"]
      by (subst sint_sub64) simp_all
    have mk: "make_bytes (Size c - word_of_nat (length got)) = Inr z"
      using sub lt by (simp add: make_bytes_def z_def nat_diff_distrib')
    have wr: "target_Write mem_io z t2 = (None, t3)"
      by (simp add: mem_io_def t3_def mem_Write_def)
    have less: "(word_of_nat (length got) :: int64) <s Size c"
      using n k lt by (simp add: word_sless_alt)
    have "WriteChunk mem_io c src tgt = Inr (None, s2, t3)"
      using False less by (simp add: WriteChunk_def seek1 seek2 copy mk wr)
    moreover have "take k (drop b (bytes t3)) = take k (drop a (bytes src) @ replicate k 0)"
    proof -
      have b3: "bytes t3 = take (b + length got) (bytes t2) @ z
                  @ drop (b + length got + length z) (bytes t2)"
        using c2 l2 by (simp add: t3_def mem_Write_def)
      have "length (drop a (bytes src)) < k"
        using lt by (auto simp: got_def min_def split: if_splits)
      then have short: "drop a (bytes src) = got" by (simp add: got_def)
      have "drop b (take (b + length got) (bytes t2)) = got"
        using w2 by (simp add: drop_take)
      then have "drop b (bytes t3) = got @ z @ drop (b + length got + length z) (bytes t2)"
        using l2 by (simp add: b3)
      then show ?thesis using lt by (simp add: short z_def)
    qed
    ultimately show ?thesis by (simp add: k_def a_def b_def)
  qed
qed

section \<open>Properties of the scanner\<close>

lemma read_bytes_one: "read_bytes env (Suc 0) b f = ReadByte env b f"
  by (cases "ReadByte env b f" rule: prod_cases3) (auto split: option.splits)

lemma consumeBytes_one:
  "consumeBytes env zsync b f 1 = (if BlockSize zsync = 1 then ReadFull env b f else ReadByte env b f)"
  by (cases "ReadByte env b f" rule: prod_cases3)
    (auto simp: consumeBytes_def split: option.splits)

lemma consumeBytes_block: "consumeBytes env zsync b f (BlockSize zsync) = ReadFull env b f"
  by (simp add: consumeBytes_def)

text \<open>
  C4. The worker, once its file is open and positioned, is the sliding-window loop
  from \<open>off = begin\<close> with a whole block to read. The loop ends when \<open>off\<close> reaches
  \<open>end\<close> or the read of the window fails. In an iteration whose read succeeds: when
  the weak lookup misses, or it hits and the strong lookup misses, nothing is sent,
  the loop goes on with \<open>off\<close> advanced by 1, and its next read is of one byte; when
  the strong lookup hits, one chunk per matched block is sent, each with the current
  \<open>off\<close> as its source offset, the loop goes on with \<open>off\<close> advanced by \<open>BlockSize\<close>,
  and its next read is of a whole block.
\<close>

theorem scan_loop_advance:
  "(OpenFile env = Inr input0 \<and> SeekFile env begin_w input0 = (None, input1) \<longrightarrow>
      searchReusableChunksAsync fuel env zsync begin_w end_w
        = map_option sent
            (scan_loop fuel env zsync end_w
               \<lparr>off = begin_w, nextStep = BlockSize zsync,
                buf = NewHashedBuffer env (BlockSize zsync), input = input1, sent = []\<rparr>))
   \<and> (\<not> off st <s end_w \<longrightarrow> scan_loop fuel env zsync end_w st = Some st)
   \<and> (off st <s end_w
        \<and> consumeBytes env zsync (buf st) (input st) (nextStep st) = (Some err, buf', input') \<longrightarrow>
      scan_loop (Suc fuel) env zsync end_w st = Some st)
   \<and> (off st <s end_w
        \<and> consumeBytes env zsync (buf st) (input st) (nextStep st) = (None, buf', input') \<longrightarrow>
      (FindWeakChecksum2 env (ChecksumsIndex zsync) (RollingSum env buf') = None
       \<or> (\<exists>weakMatches.
             FindWeakChecksum2 env (ChecksumsIndex zsync) (RollingSum env buf') = Some weakMatches
             \<and> FindStrongChecksum2 env (ChecksumsIndex zsync) (CheckSum env buf') weakMatches = None)
       \<longrightarrow> scan_loop (Suc fuel) env zsync end_w st
             = scan_loop fuel env zsync end_w
                 (st\<lparr>buf := buf', input := input', nextStep := 1, off := off st + 1\<rparr>)
           \<and> (\<forall>b f. consumeBytes env zsync b f 1
                  = (if BlockSize zsync = 1 then ReadFull env b f else ReadByte env b f)))
      \<and> (\<forall>weakMatches strongMatches.
           FindWeakChecksum2 env (ChecksumsIndex zsync) (RollingSum env buf') = Some weakMatches
           \<and> FindStrongChecksum2 env (ChecksumsIndex zsync) (CheckSum env buf') weakMatches
               = Some strongMatches
           \<longrightarrow> scan_loop (Suc fuel) env zsync end_w st
                 = scan_loop fuel env zsync end_w
                     (st\<lparr>buf := buf', input := input',
                         sent := sent st @ createChunks zsync strongMatches (off st),
                         nextStep := BlockSize zsync, off := off st + BlockSize zsync\<rparr>)
               \<and> length (createChunks zsync strongMatches (off st)) = length strongMatches
               \<and> (\<forall>c\<in>set (createChunks zsync strongMatches (off st)). SourceOffset c = off st)
               \<and> (\<forall>b f. consumeBytes env zsync b f (BlockSize zsync) = ReadFull env b f)))"
proof -
  have worker: "OpenFile env = Inr input0 \<and> SeekFile env begin_w input0 = (None, input1) \<longrightarrow>
      searchReusableChunksAsync fuel env zsync begin_w end_w
        = map_option sent
            (scan_loop fuel env zsync end_w
               \<lparr>off = begin_w, nextStep = BlockSize zsync,
                buf = NewHashedBuffer env (BlockSize zsync), input = input1, sent = []\<rparr>)"
    by (simp add: searchReusableChunksAsync_def)
  have over: "\<not> off st <s end_w \<longrightarrow> scan_loop fuel env zsync end_w st = Some st"
    by (cases fuel) simp_all
  have stop: "off st <s end_w
        \<and> consumeBytes env zsync (buf st) (input st) (nextStep st) = (Some err, buf', input') \<longrightarrow>
      scan_loop (Suc fuel) env zsync end_w st = Some st"
    by (simp add: scan_body_def)
  have step: "scan_loop (Suc fuel) env zsync end_w st
      = (case scan_body env zsync st of None \<Rightarrow> Some st
         | Some st' \<Rightarrow> scan_loop fuel env zsync end_w st')" if "off st <s end_w"
    using that by simp
  show ?thesis
    using worker over stop
    by (auto simp: step scan_body_def consumeBytes_one consumeBytes_block createChunks_def
        newChunk_def Let_def simp del: scan_loop.simps)
qed

theorem scan_loop_advance_witness:
  "searchReusableChunksAsync 20 (toy_env [1, 2, 3, 4, 5, 3, 4]) toy_zsync 0 7
     = Some [\<lparr>Size = 2, SourceOffset = 2, TargetOffset = 0\<rparr>,
             \<lparr>Size = 2, SourceOffset = 2, TargetOffset = 4\<rparr>,
             \<lparr>Size = 2, SourceOffset = 5, TargetOffset = 0\<rparr>,
             \<lparr>Size = 2, SourceOffset = 5, TargetOffset = 4\<rparr>]"
proof -
  let ?env = "toy_env [1, 2, 3, 4, 5, 3, 4]"
  let ?st0 = "\<lparr>off = 0, nextStep = 2, buf = [0, 0], input = [1, 2, 3, 4, 5, 3, 4],
               sent = []\<rparr> :: (byte list, byte list) scan_state"
  let ?st1 = "\<lparr>off = 1, nextStep = 1, buf = [1, 2], input = [3, 4, 5, 3, 4],
               sent = []\<rparr> :: (byte list, byte list) scan_state"
  let ?st2 = "\<lparr>off = 2, nextStep = 1, buf = [2, 3], input = [4, 5, 3, 4],
               sent = []\<rparr> :: (byte list, byte list) scan_state"
  let ?st3 = "\<lparr>off = 4, nextStep = 2, buf = [3, 4], input = [5, 3, 4],
               sent = [\<lparr>Size = 2, SourceOffset = 2, TargetOffset = 0\<rparr>, \<lparr>Size = 2, SourceOffset = 2, TargetOffset = 4\<rparr>]\<rparr> :: (byte list, byte list) scan_state"
  let ?st4 = "\<lparr>off = 5, nextStep = 1, buf = [5, 3], input = [4],
               sent = [\<lparr>Size = 2, SourceOffset = 2, TargetOffset = 0\<rparr>, \<lparr>Size = 2, SourceOffset = 2, TargetOffset = 4\<rparr>]\<rparr> :: (byte list, byte list) scan_state"
  let ?st5 = "\<lparr>off = 7, nextStep = 2, buf = [3, 4], input = [],
               sent = [\<lparr>Size = 2, SourceOffset = 2, TargetOffset = 0\<rparr>, \<lparr>Size = 2, SourceOffset = 2, TargetOffset = 4\<rparr>, \<lparr>Size = 2, SourceOffset = 5, TargetOffset = 0\<rparr>, \<lparr>Size = 2, SourceOffset = 5, TargetOffset = 4\<rparr>]\<rparr> :: (byte list, byte list) scan_state"
  have worker: "searchReusableChunksAsync 20 ?env toy_zsync 0 7
      = map_option sent (scan_loop 20 ?env toy_zsync 7 ?st0)"
    using scan_loop_advance [where env = ?env and zsync = toy_zsync
        and begin_w = 0 and end_w = 7 and fuel = 20 and ?input0.0 = "[1, 2, 3, 4, 5, 3, 4]"
        and ?input1.0 = "[1, 2, 3, 4, 5, 3, 4]" and st = ?st0 and err = EOF
        and buf' = "[1, 2]" and input' = "[3, 4, 5, 3, 4]"]
    by (simp add: toy_env_def toy_zsync_def eval_nat_numeral del: scan_loop.simps)
  have step0: "scan_loop 20 ?env toy_zsync 7 ?st0 = scan_loop 19 ?env toy_zsync 7 ?st1"
    using scan_loop_advance [where env = ?env and zsync = toy_zsync
        and begin_w = 0 and end_w = 7 and fuel = 19 and ?input0.0 = "[1, 2, 3, 4, 5, 3, 4]"
        and ?input1.0 = "[1, 2, 3, 4, 5, 3, 4]" and st = ?st0 and err = EOF
        and buf' = "[1, 2]" and input' = "[3, 4, 5, 3, 4]"]
    by (simp add: toy_env_def toy_zsync_def consumeBytes_def createChunks_def newChunk_def
        word_sless_alt del: scan_loop.simps)
  have step1: "scan_loop 19 ?env toy_zsync 7 ?st1 = scan_loop 18 ?env toy_zsync 7 ?st2"
    using scan_loop_advance [where env = ?env and zsync = toy_zsync
        and begin_w = 0 and end_w = 7 and fuel = 18 and ?input0.0 = "[1, 2, 3, 4, 5, 3, 4]"
        and ?input1.0 = "[1, 2, 3, 4, 5, 3, 4]" and st = ?st1 and err = EOF
        and buf' = "[2, 3]" and input' = "[4, 5, 3, 4]"]
    by (simp add: toy_env_def toy_zsync_def consumeBytes_def createChunks_def newChunk_def
        word_sless_alt del: scan_loop.simps)
  have step2: "scan_loop 18 ?env toy_zsync 7 ?st2 = scan_loop 17 ?env toy_zsync 7 ?st3"
    using scan_loop_advance [where env = ?env and zsync = toy_zsync
        and begin_w = 0 and end_w = 7 and fuel = 17 and ?input0.0 = "[1, 2, 3, 4, 5, 3, 4]"
        and ?input1.0 = "[1, 2, 3, 4, 5, 3, 4]" and st = ?st2 and err = EOF
        and buf' = "[3, 4]" and input' = "[5, 3, 4]"]
    by (simp add: toy_env_def toy_zsync_def consumeBytes_def createChunks_def newChunk_def
        word_sless_alt del: scan_loop.simps)
  have step3: "scan_loop 17 ?env toy_zsync 7 ?st3 = scan_loop 16 ?env toy_zsync 7 ?st4"
    using scan_loop_advance [where env = ?env and zsync = toy_zsync
        and begin_w = 0 and end_w = 7 and fuel = 16 and ?input0.0 = "[1, 2, 3, 4, 5, 3, 4]"
        and ?input1.0 = "[1, 2, 3, 4, 5, 3, 4]" and st = ?st3 and err = EOF
        and buf' = "[5, 3]" and input' = "[4]"]
    by (simp add: toy_env_def toy_zsync_def consumeBytes_def createChunks_def newChunk_def
        word_sless_alt del: scan_loop.simps)
  have step4: "scan_loop 16 ?env toy_zsync 7 ?st4 = scan_loop 15 ?env toy_zsync 7 ?st5"
    using scan_loop_advance [where env = ?env and zsync = toy_zsync
        and begin_w = 0 and end_w = 7 and fuel = 15 and ?input0.0 = "[1, 2, 3, 4, 5, 3, 4]"
        and ?input1.0 = "[1, 2, 3, 4, 5, 3, 4]" and st = ?st4 and err = EOF
        and buf' = "[3, 4]" and input' = "[]"]
    by (simp add: toy_env_def toy_zsync_def consumeBytes_def createChunks_def newChunk_def
        word_sless_alt del: scan_loop.simps)
  have last: "scan_loop 15 ?env toy_zsync 7 ?st5 = Some ?st5"
    using scan_loop_advance [where env = ?env and zsync = toy_zsync
        and begin_w = 0 and end_w = 7 and fuel = 15 and ?input0.0 = "[1, 2, 3, 4, 5, 3, 4]"
        and ?input1.0 = "[1, 2, 3, 4, 5, 3, 4]" and st = ?st5 and err = EOF
        and buf' = "[]" and input' = "[]"]
    by (simp add: word_sless_alt del: scan_loop.simps)
  show ?thesis
    unfolding worker step0 step1 step2 step3 step4 last by simp
qed

text \<open>
  The loop ends: with a positive block size and \<open>end + BlockSize\<close> within int64,
  \<open>end - off\<close> iterations are enough.
\<close>

lemma scan_body_off:
  "scan_body env zsync st = Some st' \<Longrightarrow>
     off st' = off st + 1 \<or> off st' = off st + BlockSize zsync"
  by (auto simp: scan_body_def split: prod.splits option.splits)

lemma scan_loop_returns:
  assumes "0 < sint (BlockSize zsync)" "sint end_w + sint (BlockSize zsync) < 2 ^ 63"
  shows "nat (sint end_w - sint (off st)) \<le> fuel \<Longrightarrow>
     \<exists>st'. scan_loop fuel env zsync end_w st = Some st'"
proof (induction fuel arbitrary: st)
  case 0
  then show ?case by (simp add: word_sless_alt)
next
  case (Suc fuel)
  show ?case
  proof (cases "off st <s end_w")
    case False then show ?thesis by simp
  next
    case True
    then have lt: "sint (off st) < sint end_w" by (simp add: word_sless_alt)
    show ?thesis
    proof (cases "scan_body env zsync st")
      case None with True show ?thesis by simp
    next
      case (Some st')
      have "sint (off st) < sint (off st')"
      proof -
        from scan_body_off[OF Some] consider "off st' = off st + 1" | "off st' = off st + BlockSize zsync"
          by blast
        then show ?thesis
        proof cases
          case 1
          have "sint (off st + 1) = sint (off st) + sint (1 :: int64)"
            by (rule sint_add64) (use lt assms sint64_bounds[of "off st"] in simp_all)
          with 1 show ?thesis by simp
        next
          case 2
          have "sint (off st + BlockSize zsync) = sint (off st) + sint (BlockSize zsync)"
            by (rule sint_add64) (use lt assms sint64_bounds[of "off st"] in simp_all)
          with 2 assms show ?thesis by simp
        qed
      qed
      then have "nat (sint end_w - sint (off st')) \<le> fuel" using Suc.prems lt by simp
      from Suc.IH[OF this] Some True show ?thesis by simp
    qed
  qed
qed

lemma searchReusableChunksAsync_returns:
  assumes "0 < sint (BlockSize zsync)" "sint end_w + sint (BlockSize zsync) < 2 ^ 63"
    and "nat (sint end_w - sint begin_w) \<le> fuel"
  shows "\<exists>chunks. searchReusableChunksAsync fuel env zsync begin_w end_w = Some chunks"
proof (cases "OpenFile env")
  case (Inl err)
  then show ?thesis by (simp add: searchReusableChunksAsync_def)
next
  case (Inr input0)
  obtain e input1 where seek: "SeekFile env begin_w input0 = (e, input1)" by fastforce
  show ?thesis
  proof (cases e)
    case (Some err)
    with Inr seek show ?thesis by (simp add: searchReusableChunksAsync_def)
  next
    case None
    obtain st' where "scan_loop fuel env zsync end_w
        \<lparr>off = begin_w, nextStep = BlockSize zsync,
         buf = NewHashedBuffer env (BlockSize zsync), input = input1, sent = []\<rparr> = Some st'"
      using scan_loop_returns[OF assms(1,2), of _ fuel env] assms(3) by fastforce
    with Inr seek None show ?thesis by (simp add: searchReusableChunksAsync_def)
  qed
qed

section \<open>Properties of \<open>SearchReusableChunks\<close>\<close>

lemma ceil_div_cases:
  assumes "0 < (b::int)" "0 \<le> a"
  shows "ceil_div a b = (if a mod b = 0 then a div b else a div b + 1)"
proof -
  define q r where "q = a div b" and "r = a mod b"
  have a: "a = r + b * q" by (simp add: q_def r_def)
  have r: "0 \<le> r" "r < b" using assms by (simp_all add: r_def)
  have "a + b - 1 = (r + b - 1) + b * q" using a by simp
  then have "(a + b - 1) div b = q + (r + b - 1) div b"
    using assms by (simp only: div_mult_self2)
  moreover have "(r + b - 1) div b = (if r = 0 then 0 else 1)"
  proof (cases "r = 0")
    case True
    then show ?thesis using assms by (simp add: div_pos_pos_trivial)
  next
    case False
    have "r + b - 1 = (r - 1) + b * 1" by simp
    then have "(r + b - 1) div b = 1 + (r - 1) div b"
      using assms by (simp only: div_mult_self2)
    moreover have "(r - 1) div b = 0" using False r by (simp add: div_pos_pos_trivial)
    ultimately show ?thesis using False by simp
  qed
  ultimately show ?thesis by (simp add: ceil_div_def q_def r_def)
qed

lemma ceil_div_eq:
  assumes "0 < (b::int)" "0 \<le> a"
  shows "(if (a div b) * b < a then a div b + 1 else a div b) = ceil_div a b"
proof -
  define q r where "q = a div b" and "r = a mod b"
  have a: "a = r + q * b" by (simp add: q_def r_def)
  have r: "0 \<le> r" "r < b" using assms by (simp_all add: r_def)
  have "q * b < a \<longleftrightarrow> r \<noteq> 0" using a r by linarith
  then show ?thesis
    using ceil_div_cases[OF assms] by (simp add: q_def r_def)
qed

lemma ceil_div_bounds:
  assumes "0 < (b::int)" "0 < a"
  shows "1 \<le> ceil_div a b" "(ceil_div a b - 1) * b < a" "a \<le> ceil_div a b * b"
proof -
  define q r where "q = a div b" and "r = a mod b"
  define c where "c = ceil_div a b"
  have a: "a = r + q * b" by (simp add: q_def r_def)
  have r: "0 \<le> r" "r < b" using assms by (simp_all add: r_def)
  have c: "c = (if r = 0 then q else q + 1)"
    using ceil_div_cases[of b a] assms by (simp add: c_def q_def r_def)
  have hi: "a \<le> c * b"
  proof (cases "r = 0")
    case True then show ?thesis using a c by simp
  next
    case False
    then have "c * b = q * b + b" using c by (simp add: algebra_simps)
    then show ?thesis using a r by linarith
  qed
  have lo: "(c - 1) * b < a"
  proof (cases "r = 0")
    case True
    then have "(c - 1) * b = q * b - b" using c by (simp add: algebra_simps)
    then show ?thesis using a True assms by linarith
  next
    case False
    then have "(c - 1) * b = q * b" using c by simp
    then show ?thesis using a r False by linarith
  qed
  have "1 \<le> c"
  proof (rule ccontr)
    assume "\<not> 1 \<le> c"
    then have "c \<le> 0" by simp
    then have "c * b \<le> 0" using assms by (simp add: mult_le_0_iff)
    with hi assms show False by simp
  qed
  then show "1 \<le> ceil_div a b" "(ceil_div a b - 1) * b < a" "a \<le> ceil_div a b * b"
    using hi lo by (simp_all add: c_def)
qed

lemma div64_pos:
  assumes "0 \<le> sint a" "0 < sint b"
  shows "\<exists>q. div64 a b = Inr q \<and> sint q = sint a div sint b"
proof -
  have nz: "b \<noteq> 0" using assms(2) by auto
  have sd: "sint a sdiv sint b = sint a div sint b"
    using assms by (cases "sint a = 0") (simp_all add: signed_divide_int_def)
  have "0 \<le> sint a div sint b" using assms by (simp add: pos_imp_zdiv_nonneg_iff)
  moreover have "sint a div sint b \<le> sint a"
    using zdiv_mono2[of "sint a" 1 "sint b"] assms by simp
  ultimately have "sint (word_of_int (sint a div sint b) :: int64) = sint a div sint b"
    using sint64_bounds(2)[of a] by (intro sint_of_int64) simp_all
  then show ?thesis using nz sd by (simp add: div64_def)
qed


lemma SearchReusableChunks_ranges:
  assumes I: "0 < sint inputSize" and B: "0 < sint (BlockSize z)" and N: "0 < sint numCPU"
    and fit: "sint inputSize + sint (BlockSize z) < 2 ^ 63"
  defines "C \<equiv> ceil_div (sint inputSize) (sint (BlockSize z))"
  defines "W \<equiv> min (sint numCPU) C"
  defines "k \<equiv> C div W"
  shows "\<exists>rs. SearchReusableChunks numCPU z (Inr inputSize) = Inr (Inr rs)
     \<and> length rs = nat W
     \<and> (\<forall>i<nat W. sint (fst (rs ! i)) = k * sint (BlockSize z) * int i
           \<and> sint (snd (rs ! i)) = min (k * sint (BlockSize z) * (int i + 1)) (sint inputSize))"
proof -
  define Iv where "Iv = sint inputSize"
  define Bv where "Bv = sint (BlockSize z)"
  have Ipos: "0 < Iv" and Bpos: "0 < Bv" and fit': "Iv + Bv < 2 ^ 63"
    using I B fit by (simp_all add: Iv_def Bv_def)
  have Cb: "1 \<le> C" "(C - 1) * Bv < Iv" "Iv \<le> C * Bv"
    using ceil_div_bounds[OF Bpos Ipos] by (simp_all add: C_def Iv_def Bv_def)
  have CB: "C * Bv < Iv + Bv" using Cb(2) by (simp add: algebra_simps)
  have Wb: "1 \<le> W" "W \<le> C" "W \<le> sint numCPU" using N Cb(1) by (simp_all add: W_def)
  have kW: "k * W \<le> C"
  proof -
    have "C = k * W + C mod W" by (simp add: k_def)
    moreover have "0 \<le> C mod W" using Wb(1) by simp
    ultimately show ?thesis by linarith
  qed
  have kpos: "1 \<le> k"
    using zdiv_mono1[of W C W] Wb by (simp add: k_def)
  have kC: "k \<le> C"
  proof -
    have "k * 1 \<le> k * W" using Wb(1) kpos by (intro mult_left_mono) simp_all
    with kW show ?thesis by simp
  qed
  have kBpos: "0 < k * Bv" using kpos Bpos by simp
  have kBW: "k * Bv * W \<le> C * Bv"
  proof -
    have "(k * W) * Bv \<le> C * Bv" using kW Bpos by (intro mult_right_mono) simp_all
    then show ?thesis by (simp add: algebra_simps)
  qed
  have upto: "k * Bv * j \<le> C * Bv" if "0 \<le> j" "j \<le> W" for j
  proof -
    have "k * Bv * j \<le> k * Bv * W" using that kBpos by (intro mult_left_mono) simp_all
    with kBW show ?thesis by simp
  qed
  \<comment> \<open>the quotient and the number of blocks\<close>
  obtain q where q: "div64 inputSize (BlockSize z) = Inr q" "sint q = Iv div Bv"
    using div64_pos[of inputSize "BlockSize z"] I B by (auto simp: Iv_def Bv_def)
  have qB_le: "(Iv div Bv) * Bv \<le> Iv"
  proof -
    have "Iv = (Iv div Bv) * Bv + Iv mod Bv" by simp
    moreover have "0 \<le> Iv mod Bv" using Bpos by simp
    ultimately show ?thesis by linarith
  qed
  have q0: "0 \<le> Iv div Bv" using Ipos Bpos by (simp add: pos_imp_zdiv_nonneg_iff)
  have qB0: "0 \<le> (Iv div Bv) * Bv" using q0 Bpos by simp
  have qB: "sint (q * BlockSize z) = (Iv div Bv) * Bv"
    using sint_mult64[of q "BlockSize z"] q(2) qB_le qB0 fit' Bpos
    by (simp add: Bv_def[symmetric])
  have qle: "Iv div Bv \<le> Iv" using zdiv_mono2[of Iv 1 Bv] Ipos Bpos by simp
  have q1: "sint (q + 1) = Iv div Bv + 1"
    using sint_add64[of q 1] q(2) q0 qle fit' Bpos by simp
  define nChunks where "nChunks = (if q * BlockSize z <s inputSize then q + 1 else q)"
  have nC: "sint nChunks = C"
    using ceil_div_eq[of Bv Iv] Bpos Ipos qB q1 q(2)
    by (auto simp: nChunks_def word_sless_alt C_def Iv_def[symmetric] Bv_def[symmetric]
        split: if_splits)
  define nWorkers where "nWorkers = (if nChunks <s numCPU then nChunks else numCPU)"
  have nW: "sint nWorkers = W"
    using nC by (simp add: nWorkers_def word_sless_alt W_def min_def)
  obtain kw where kw: "div64 nChunks nWorkers = Inr kw" "sint kw = k"
    using div64_pos[of nChunks nWorkers] nC nW Cb(1) Wb(1) by (auto simp: k_def)
  have kB: "sint (kw * BlockSize z) = k * Bv"
  proof -
    have "k * Bv \<le> C * Bv" using kC Bpos by (intro mult_right_mono) simp_all
    then show ?thesis
      using sint_mult64[of kw "BlockSize z"] kw(2) kBpos CB fit'
      by (simp add: Bv_def[symmetric])
  qed
  define rs where "rs = map (\<lambda>i. worker_range kw (BlockSize z) inputSize (word_of_nat i))
                          [0..<nat (sint nWorkers)]"
  have res: "SearchReusableChunks numCPU z (Inr inputSize) = Inr (Inr rs)"
    by (simp add: SearchReusableChunks_def q(1) kw(1) Let_def nChunks_def[symmetric]
        nWorkers_def[symmetric] rs_def)
  have len: "length rs = nat W" by (simp add: rs_def nW)
  have each: "sint (fst (rs ! i)) = k * Bv * int i
      \<and> sint (snd (rs ! i)) = min (k * Bv * (int i + 1)) Iv" if i: "i < nat W" for i
  proof -
    have iW: "int i + 1 \<le> W" using i by simp
    have "W < 2 ^ 63" using Wb(3) sint64_bounds(2)[of numCPU] by simp
    then have "int i < 2 ^ 63" using iW by simp
    then have "i < 2 ^ 63" by simp
    then have si: "sint (word_of_nat i :: int64) = int i" by (rule sint_of_nat64)
    have b1: "k * Bv * int i \<le> C * Bv" using upto[of "int i"] iW by simp
    have b2: "k * Bv * (int i + 1) \<le> C * Bv" using upto[of "int i + 1"] iW by simp
    have b0: "0 \<le> k * Bv * int i" using kBpos by simp
    have sb: "sint (kw * BlockSize z * word_of_nat i) = k * Bv * int i"
      using sint_mult64[of "kw * BlockSize z" "word_of_nat i"] kB si b0 b1 CB fit'
      by simp
    have se: "sint (kw * BlockSize z * word_of_nat i + kw * BlockSize z) = k * Bv * (int i + 1)"
    proof -
      have "k * Bv * int i + k * Bv = k * Bv * (int i + 1)" by (simp add: algebra_simps)
      then show ?thesis
        using sint_add64[of "kw * BlockSize z * word_of_nat i" "kw * BlockSize z"]
          sb kB b0 b2 kBpos CB fit'
        by simp
    qed
    have nth: "rs ! i = worker_range kw (BlockSize z) inputSize (word_of_nat i)"
      using i by (simp add: rs_def nW)
    show ?thesis
      using sb se
      by (simp add: nth worker_range_def Let_def word_sless_alt Iv_def[symmetric] min_def)
  qed
  show ?thesis
    using res len each by (auto simp: Bv_def Iv_def)
qed

lemmas ranges_eval = SearchReusableChunks_def div64_def worker_range_def signed_divide_int_def
  word_sless_alt Let_def upt_conv_Cons

text \<open>
  C3, as amended. For a local file that is not empty, a positive block size and
  \<open>local_size + block_size\<close> within int64, \<open>SearchReusableChunks\<close> starts
  \<open>W = min(NumCPU, \<lceil>local_size / block_size\<rceil>)\<close> workers, \<open>W\<close> at least 1. Their ranges
  are not empty, lie in the file, start at offset 0, and each begins where the one
  before it ends. When \<open>W\<close> divides the number of blocks
  \<open>\<lceil>local_size / block_size\<rceil>\<close>, the ranges together cover every byte offset of the
  file.
\<close>

theorem SearchReusableChunks_split:
  assumes I: "0 < sint inputSize" and B: "0 < sint (BlockSize z)" and N: "0 < sint numCPU"
    and fit: "sint inputSize + sint (BlockSize z) < 2 ^ 63"
  shows "\<exists>rs. SearchReusableChunks numCPU z (Inr inputSize) = Inr (Inr rs)
     \<and> int (length rs) = min (sint numCPU) (ceil_div (sint inputSize) (sint (BlockSize z)))
     \<and> 1 \<le> length rs
     \<and> fst (rs ! 0) = 0
     \<and> (\<forall>i. Suc i < length rs \<longrightarrow> snd (rs ! i) = fst (rs ! Suc i))
     \<and> (\<forall>i<length rs. sint (fst (rs ! i)) < sint (snd (rs ! i))
                          \<and> sint (snd (rs ! i)) \<le> sint inputSize)
     \<and> (ceil_div (sint inputSize) (sint (BlockSize z)) mod int (length rs) = 0 \<longrightarrow>
          (\<Union>r\<in>set rs. {sint (fst r) ..< sint (snd r)}) = {0 ..< sint inputSize})"
proof -
  define Iv where "Iv = sint inputSize"
  define Bv where "Bv = sint (BlockSize z)"
  define C where "C = ceil_div Iv Bv"
  define W where "W = min (sint numCPU) C"
  define k where "k = C div W"
  have Ipos: "0 < Iv" and Bpos: "0 < Bv" using I B by (simp_all add: Iv_def Bv_def)
  have Cb: "1 \<le> C" "(C - 1) * Bv < Iv" "Iv \<le> C * Bv"
    using ceil_div_bounds[OF Bpos Ipos] by (simp_all add: C_def)
  have Wb: "1 \<le> W" "W \<le> C" using N Cb(1) by (simp_all add: W_def)
  have Cdecomp: "C = k * W + C mod W" by (simp add: k_def)
  have kW: "k * W \<le> C"
  proof -
    have "0 \<le> C mod W" using Wb(1) by simp
    with Cdecomp show ?thesis by linarith
  qed
  have kpos: "1 \<le> k" using zdiv_mono1[of W C W] Wb by (simp add: k_def)
  have kBpos: "0 < k * Bv" using kpos Bpos by simp
  have inner: "k * Bv * j < Iv" if j: "0 \<le> j" "j + 1 \<le> W" for j
  proof -
    have "k * Bv * j \<le> k * Bv * (W - 1)" using j kBpos by (intro mult_left_mono) simp_all
    also have "\<dots> = (k * W) * Bv - k * Bv" by (simp add: algebra_simps)
    also have "\<dots> \<le> C * Bv - k * Bv"
      using mult_right_mono[OF kW, of Bv] Bpos by simp
    also have "\<dots> \<le> C * Bv - 1 * Bv"
      using mult_right_mono[OF kpos, of Bv] Bpos by simp
    also have "\<dots> = (C - 1) * Bv" by (simp add: algebra_simps)
    finally show ?thesis using Cb(2) by simp
  qed
  obtain rs where rs: "SearchReusableChunks numCPU z (Inr inputSize) = Inr (Inr rs)"
    "length rs = nat W"
    "\<And>i. i < nat W \<Longrightarrow> sint (fst (rs ! i)) = k * Bv * int i
           \<and> sint (snd (rs ! i)) = min (k * Bv * (int i + 1)) Iv"
    using SearchReusableChunks_ranges[OF I B N fit]
    unfolding Iv_def Bv_def C_def W_def k_def by blast
  have len: "int (length rs) = W" using rs(2) Wb(1) by simp
  have one: "1 \<le> length rs" using rs(2) Wb(1) by simp
  have first: "fst (rs ! 0) = 0"
  proof -
    have "sint (fst (rs ! 0)) = 0" using rs(3)[of 0] Wb(1) by simp
    then show ?thesis by (simp add: sint64_eq_iff)
  qed
  have contiguous: "snd (rs ! i) = fst (rs ! Suc i)" if i: "Suc i < length rs" for i
  proof -
    have iW: "int i + 1 + 1 \<le> W" using i rs(2) by simp
    have "k * Bv * (int i + 1) < Iv" using inner[of "int i + 1"] iW by simp
    then have "sint (snd (rs ! i)) = k * Bv * (int i + 1)"
      using rs(3)[of i] i rs(2) by simp
    moreover have "sint (fst (rs ! Suc i)) = k * Bv * (int i + 1)"
      using rs(3)[of "Suc i"] i rs(2) by (simp add: algebra_simps)
    ultimately show ?thesis by (simp add: sint64_eq_iff)
  qed
  have nonempty: "sint (fst (rs ! i)) < sint (snd (rs ! i)) \<and> sint (snd (rs ! i)) \<le> Iv"
    if i: "i < length rs" for i
  proof -
    have iW: "int i + 1 \<le> W" using i rs(2) by simp
    have "k * Bv * int i < Iv" using inner[of "int i"] iW by simp
    moreover have "k * Bv * int i < k * Bv * (int i + 1)" using kBpos by (simp add: algebra_simps)
    ultimately show ?thesis using rs(3)[of i] i rs(2) by simp
  qed
  have cover: "(\<Union>r\<in>set rs. {sint (fst r) ..< sint (snd r)}) = {0 ..< Iv}" if dv: "C mod W = 0"
  proof (rule set_eqI, rule iffI)
    fix x assume "x \<in> (\<Union>r\<in>set rs. {sint (fst r) ..< sint (snd r)})"
    then obtain i where i: "i < length rs" and x: "sint (fst (rs ! i)) \<le> x" "x < sint (snd (rs ! i))"
      by (auto simp: in_set_conv_nth)
    have "0 \<le> k * Bv * int i" using kBpos by simp
    then show "x \<in> {0 ..< Iv}" using x nonempty[OF i] rs(3)[of i] i rs(2) by simp
  next
    fix x assume "x \<in> {0 ..< Iv}"
    then have x: "0 \<le> x" "x < Iv" by simp_all
    define j where "j = x div (k * Bv)"
    have j0: "0 \<le> j" using x kBpos by (simp add: j_def pos_imp_zdiv_nonneg_iff)
    have xd: "x = k * Bv * j + x mod (k * Bv)" by (simp add: j_def)
    have xm: "0 \<le> x mod (k * Bv)" "x mod (k * Bv) < k * Bv" using kBpos by simp_all
    have lo: "k * Bv * j \<le> x" using xd xm by linarith
    have hi: "x < k * Bv * (j + 1)" using xd xm by (simp add: algebra_simps)
    have "C = k * W" using Cdecomp dv by simp
    then have "Iv \<le> k * Bv * W" using Cb(3) by (simp add: algebra_simps)
    with x lo have "k * Bv * j < k * Bv * W" by linarith
    then have jW: "j < W" using kBpos by (simp add: mult_less_cancel_left_pos)
    define i where "i = nat j"
    have i: "i < length rs" "int i = j" using j0 jW rs(2) by (simp_all add: i_def)
    have "sint (fst (rs ! i)) \<le> x \<and> x < sint (snd (rs ! i))"
      using rs(3)[of i] i rs(2) lo hi x by simp
    moreover have "rs ! i \<in> set rs" using i by simp
    ultimately show "x \<in> (\<Union>r\<in>set rs. {sint (fst r) ..< sint (snd r)})" by auto
  qed
  show ?thesis
    using rs(1) len one first contiguous nonempty cover
    unfolding Iv_def Bv_def C_def W_def
    by (intro exI[of _ rs]) simp
qed

theorem SearchReusableChunks_split_witness:
  "SearchReusableChunks 4 \<lparr>BlockSize = 16, ChecksumsIndex = (), RemoteFileUrl = ''u'',
        RemoteFileSize = 64, RemoteFileSHA1 = ''''\<rparr> (Inr 64)
     = Inr (Inr [(0, 16), (16, 32), (32, 48), (48, 64)])
   \<and> (\<Union>r\<in>set [(0 :: int64, 16 :: int64), (16, 32), (32, 48), (48, 64)].
         {sint (fst r) ..< sint (snd r)}) = {0 ..< 64}"
proof -
  have ev: "SearchReusableChunks 4 \<lparr>BlockSize = 16, ChecksumsIndex = (), RemoteFileUrl = ''u'',
        RemoteFileSize = 64, RemoteFileSHA1 = ''''\<rparr> (Inr 64)
     = Inr (Inr [(0, 16), (16, 32), (32, 48), (48, 64)])"
    by (simp add: ranges_eval)
  have "(\<Union>r\<in>set [(0 :: int64, 16 :: int64), (16, 32), (32, 48), (48, 64)].
         {sint (fst r) ..< sint (snd r)}) = {0 ..< sint (64 :: int64)}"
    using SearchReusableChunks_split [of 64 "\<lparr>BlockSize = 16, ChecksumsIndex = (),
        RemoteFileUrl = ''u'', RemoteFileSize = 64, RemoteFileSHA1 = ''''\<rparr>" 4]
    unfolding ev by (simp add: ceil_div_def)
  with ev show ?thesis by simp
qed

text \<open>
  C3 as stated fails on the number of workers: the code rounds the number of blocks
  up, not down. For a file of 5 bytes, blocks of 2 bytes and 8 CPUs it starts 3
  workers, where \<open>min(NumCPU, \<lfloor>local_size / block_size\<rfloor>)\<close>, at least 1, is 2.
\<close>

theorem SearchReusableChunks_workers_counterexample:
  "SearchReusableChunks 8 \<lparr>BlockSize = 2, ChecksumsIndex = (), RemoteFileUrl = ''u'',
        RemoteFileSize = 5, RemoteFileSHA1 = ''''\<rparr> (Inr 5)
     = Inr (Inr [(0, 2), (2, 4), (4, 5)])
   \<and> length [(0 :: int64, 2 :: int64), (2, 4), (4, 5)] = 3
   \<and> max 1 (min (8 :: int) (5 div 2)) = 2"
  by (simp add: ranges_eval)

text \<open>
  Two inputs on which the code does not do what the specification promises either.
  For an empty file the number of workers is 0 and the division
  \<open>nChunks / nWorkers\<close> panics. When the number of workers does not divide the number
  of blocks, the blocks of the remainder are given to no worker: of a file of 10
  bytes in blocks of 2 bytes, 4 workers scan the first 8 bytes only.
\<close>

lemma SearchReusableChunks_empty_file:
  "0 < sint (BlockSize zsync) \<Longrightarrow> 0 < sint numCPU \<Longrightarrow>
     SearchReusableChunks numCPU zsync (Inr 0) = Inl IntegerDivideByZero"
  by (auto simp: SearchReusableChunks_def div64_def word_sless_alt Let_def)

lemma SearchReusableChunks_unscanned_tail:
  "SearchReusableChunks 4 \<lparr>BlockSize = 2, ChecksumsIndex = (), RemoteFileUrl = ''u'',
        RemoteFileSize = 10, RemoteFileSHA1 = ''''\<rparr> (Inr 10)
     = Inr (Inr [(0, 2), (2, 4), (4, 6), (6, 8)])"
  by (simp add: ranges_eval)

section \<open>\<open>OptimizeChunks\<close> as a single pass\<close>

lemma fold_idle_at: "(\<And>x. x \<in> set xs \<Longrightarrow> f x s = s) \<Longrightarrow> fold f xs s = s"
  by (induction xs) auto

lemma skip_same: "(\<lambda>m::nat. skip m \<or> n \<le> m \<and> m < n) = skip"
  by auto

lemma inner_dead:
  assumes "\<And>m. n \<le> m \<Longrightarrow> m < length cl \<Longrightarrow> \<not> skip m \<Longrightarrow> \<not> SourceOffset (cl ! m) <s e + g"
  shows "fold (optimize_inner cl g) [n..<length cl] (c, e, skip) = (c, e, skip)"
  by (rule fold_idle_at) (use assms in \<open>auto simp: optimize_inner_def Let_def\<close>)

lemma inner_live:
  assumes "source_sorted cl"
  shows "drop n cl = xs \<Longrightarrow> (\<And>m. n \<le> m \<Longrightarrow> \<not> skip m) \<Longrightarrow>
     fold (optimize_inner cl g) [n..<length cl] (c, e, skip) =
       (fst (run_res g c e xs), snd (run_res g c e xs),
        (\<lambda>m. skip m \<or> (n \<le> m \<and> m < n + run_len g e xs)))"
proof (induction xs arbitrary: n c e skip)
  case Nil
  then have "length cl \<le> n" by simp
  then show ?case by (auto simp: fun_eq_iff)
next
  case (Cons x xs)
  from Cons.prems(1) have n: "n < length cl" 
    by (metis drop_all linorder_not_less list.distinct(1))
  with Cons.prems(1) have x: "cl ! n = x" and xs: "drop (Suc n) cl = xs"
    by (simp_all add: Cons_nth_drop_Suc[symmetric])
  have upt: "[n..<length cl] = n # [Suc n..<length cl]" using n by (simp add: upt_conv_Cons)
  show ?case
  proof (cases "SourceOffset x <s e + g")
    case True
    let ?c = "c\<lparr>Size := SourceOffset x + Size x - SourceOffset c\<rparr>"
    let ?e = "SourceOffset x + Size x"
    have step: "optimize_inner cl g n (c, e, skip) = (?c, ?e, skip(n := True))"
      using True x Cons.prems(2)[of n] by (simp add: optimize_inner_def Let_def)
    have "fold (optimize_inner cl g) [Suc n..<length cl] (?c, ?e, skip(n := True)) =
       (fst (run_res g ?c ?e xs), snd (run_res g ?c ?e xs),
        (\<lambda>m. (skip(n := True)) m \<or> (Suc n \<le> m \<and> m < Suc n + run_len g ?e xs)))"
      by (rule Cons.IH[OF xs]) (use Cons.prems(2) in auto)
    moreover have "(\<lambda>m. (skip(n := True)) m \<or> (Suc n \<le> m \<and> m < Suc n + run_len g ?e xs))
       = (\<lambda>m. skip m \<or> (n \<le> m \<and> m < n + run_len g e (x # xs)))"
      using True by (auto simp: fun_eq_iff)
    ultimately show ?thesis using True upt step by simp
  next
    case False
    have step: "optimize_inner cl g n (c, e, skip) = (c, e, skip)"
      using False x by (simp add: optimize_inner_def Let_def)
    have dead: "fold (optimize_inner cl g) [Suc n..<length cl] (c, e, skip) = (c, e, skip)"
    proof (rule fold_idle_at)
      fix m assume "m \<in> set [Suc n..<length cl]"
      then have m: "n < m" "m < length cl" by auto
      with assms have "SourceOffset (cl ! n) \<le>s SourceOffset (cl ! m)"
        by (simp add: sorted_wrt_iff_nth_less)
      with False x have "\<not> SourceOffset (cl ! m) <s e + g"
        by (auto simp: word_sless_alt word_sle_eq)
      then show "optimize_inner cl g m (c, e, skip) = (c, e, skip)"
        by (simp add: optimize_inner_def Let_def)
    qed
    show ?thesis using False upt step dead by (simp add: skip_same)
  qed
qed

lemma merge_run_split:
  "merge_run g c e xs = fst (run_res g c e xs) # merge_runs g (drop (run_len g e xs) xs)"
  by (induction xs arbitrary: c e) (simp_all add: merge_runs_def)

lemma run_len_le: "run_len g e xs \<le> length xs"
  by (induction xs arbitrary: e) auto

lemma merge_runs_dead:
  assumes "source_sorted (c # cs)" "\<not> SourceOffset c <s SourceOffset c + Size c + g"
  shows "merge_runs g (c # cs) = c # merge_runs g cs"
proof (cases cs)
  case Nil then show ?thesis by (simp add: merge_runs_def)
next
  case (Cons x xs)
  with assms have "\<not> SourceOffset x <s SourceOffset c + Size c + g"
    by (auto simp: word_sless_alt word_sle_eq)
  with Cons show ?thesis by (simp add: merge_runs_def)
qed

lemma outer_fold:
  assumes "source_sorted cl"
  shows "i \<le> length cl \<Longrightarrow> (\<And>m. i \<le> m \<Longrightarrow> \<not> skip m) \<Longrightarrow>
     fst (fold (optimize_outer cl g) [i..<length cl] (out, skip)) = out @ merge_runs g (drop i cl)"
proof (induction "length cl - i" arbitrary: i out skip rule: less_induct)
  case less
  show ?case
  proof (cases "i = length cl")
    case True then show ?thesis by (simp add: merge_runs_def)
  next
    case False
    with less.prems have i: "i < length cl" by simp
    define c where "c = cl ! i"
    define cs where "cs = drop (Suc i) cl"
    have dr: "drop i cl = c # cs" using i by (simp add: c_def cs_def Cons_nth_drop_Suc)
    have sorted_suffix: "source_sorted (c # cs)"
      using assms dr by (metis sorted_wrt_drop)
    let ?e = "SourceOffset c + Size c"
    have upt: "[i..<length cl] = i # [Suc i..<length cl]" using i by (simp add: upt_conv_Cons)
    have inner: "fold (optimize_inner cl g) [i..<length cl] (c, ?e, skip) =
       (fst (run_res g c ?e (c # cs)), snd (run_res g c ?e (c # cs)),
        (\<lambda>m. skip m \<or> (i \<le> m \<and> m < i + run_len g ?e (c # cs))))"
      by (rule inner_live[OF assms dr]) (use less.prems in auto)
    show ?thesis
    proof (cases "SourceOffset c <s ?e + g")
      case dead: False
      have step: "optimize_outer cl g i (out, skip) = (out @ [c], skip)"
        using less.prems(2)[of i] inner dead
        by (simp add: optimize_outer_def Let_def c_def[symmetric] skip_same)
      have "fst (fold (optimize_outer cl g) [Suc i..<length cl] (out @ [c], skip))
          = (out @ [c]) @ merge_runs g (drop (Suc i) cl)"
        by (rule less.hyps) (use i less.prems in auto)
      then show ?thesis
        using upt step dr merge_runs_dead[OF sorted_suffix dead] by (simp add: cs_def)
    next
      case live: True
      define k where "k = run_len g ?e cs"
      define c' where "c' = fst (run_res g c ?e cs)"
      define skip' where "skip' = (\<lambda>m. skip m \<or> (i \<le> m \<and> m < Suc (i + k)))"
      have self: "c\<lparr>Size := SourceOffset c + Size c - SourceOffset c\<rparr> = c" by simp
      have step: "optimize_outer cl g i (out, skip) = (out @ [c'], skip')"
        using less.prems(2)[of i] inner live
        by (simp add: optimize_outer_def Let_def c_def[symmetric] self c'_def skip'_def k_def)
      have k: "k \<le> length cs" unfolding k_def by (rule run_len_le)
      then have j: "Suc (i + k) \<le> length cl" using i by (simp add: cs_def)
      have split: "[Suc i..<length cl] = [Suc i..<Suc (i + k)] @ [Suc (i + k)..<length cl]"
      proof -
        from j obtain d where "length cl = Suc (i + k) + d" by (auto simp: le_iff_add)
        then show ?thesis using upt_add_eq_append[of "Suc i" "Suc (i + k)" d] by simp
      qed
      have skipped: "fold (optimize_outer cl g) [Suc i..<Suc (i + k)] (out @ [c'], skip')
           = (out @ [c'], skip')"
        by (rule fold_idle_at) (auto simp: optimize_outer_def skip'_def)
      have "fst (fold (optimize_outer cl g) [Suc (i + k)..<length cl] (out @ [c'], skip'))
          = (out @ [c']) @ merge_runs g (drop (Suc (i + k)) cl)"
        by (rule less.hyps) (use i j less.prems in \<open>auto simp: skip'_def\<close>)
      moreover have "merge_runs g (c # cs) = c' # merge_runs g (drop k cs)"
        by (simp add: merge_runs_def merge_run_split[of g c ?e cs] c'_def k_def)
      moreover have "drop (Suc (i + k)) cl = drop k cs"
        by (simp add: cs_def add.commute)
      ultimately show ?thesis
        using upt step split skipped dr by simp
    qed
  qed
qed

lemma OptimizeChunks_merge_runs:
  "source_sorted cl \<Longrightarrow> OptimizeChunks cl g = merge_runs g cl"
  using outer_fold[of cl 0 "\<lambda>n. False" g "[]"] by (simp add: OptimizeChunks_def)

lemma merge_run_hd:
  "merge_run g c e xs \<noteq> [] \<and> SourceOffset (hd (merge_run g c e xs)) = SourceOffset c"
  by (induction xs arbitrary: c e) auto

lemma merge_run_settled:
  "e = SourceOffset c + Size c \<Longrightarrow> settled g (merge_run g c e xs)"
proof (induction xs arbitrary: c e)
  case Nil then show ?case by simp
next
  case (Cons x xs)
  show ?case
  proof (cases "SourceOffset x <s e + g")
    case True
    then show ?thesis using Cons.IH[of "SourceOffset x + Size x" "c\<lparr>Size := SourceOffset x + Size x - SourceOffset c\<rparr>"]
      by simp
  next
    case False
    obtain y ys where y: "merge_run g x (SourceOffset x + Size x) xs = y # ys" "SourceOffset y = SourceOffset x"
      using merge_run_hd[of g x "SourceOffset x + Size x" xs]
      by (cases "merge_run g x (SourceOffset x + Size x) xs") auto
    have "settled g (merge_run g x (SourceOffset x + Size x) xs)" by (rule Cons.IH) simp
    with False y Cons.prems show ?thesis by simp
  qed
qed

lemma merge_run_fixed:
  "settled g (c # xs) \<Longrightarrow> e = SourceOffset c + Size c \<Longrightarrow> merge_run g c e xs = c # xs"
  by (induction xs arbitrary: c e) auto

lemma merge_runs_settled: "settled g (merge_runs g cl)"
  by (cases cl) (simp_all add: merge_runs_def merge_run_settled)

lemma merge_runs_fixed: "settled g ys \<Longrightarrow> merge_runs g ys = ys"
  by (cases ys) (simp_all add: merge_runs_def merge_run_fixed)

lemma merge_run_sorted:
  "source_sorted (c # xs) \<Longrightarrow>
     source_sorted (merge_run g c e xs) \<and>
     (\<forall>y\<in>set (merge_run g c e xs). SourceOffset c \<le>s SourceOffset y)"
proof (induction xs arbitrary: c e)
  case Nil then show ?case by simp
next
  case (Cons x xs)
  show ?case
  proof (cases "SourceOffset x <s e + g")
    case True
    have "source_sorted (c\<lparr>Size := SourceOffset x + Size x - SourceOffset c\<rparr> # xs)"
      using Cons.prems by simp
    from Cons.IH[OF this] True show ?thesis by simp
  next
    case False
    have "source_sorted (x # xs)" using Cons.prems by simp
    from Cons.IH[OF this, of "SourceOffset x + Size x"] False Cons.prems show ?thesis
      by (auto simp: word_sle_eq)
  qed
qed

lemma merge_runs_sorted: "source_sorted cl \<Longrightarrow> source_sorted (merge_runs g cl)"
  by (cases cl) (simp_all add: merge_runs_def merge_run_sorted del: sorted_wrt.simps)

lemma fits_end:
  assumes "fits g c" "0 \<le> sint g"
  shows "sint (SourceOffset c + Size c) = sint (SourceOffset c) + sint (Size c)"
    and "sint (SourceOffset c + Size c + g) = sint (SourceOffset c) + sint (Size c) + sint g"
proof -
  show e: "sint (SourceOffset c + Size c) = sint (SourceOffset c) + sint (Size c)"
    by (rule sint_add64) (use assms in \<open>simp_all add: fits_def\<close>)
  have "sint (SourceOffset c + Size c + g) = sint (SourceOffset c + Size c) + sint g"
    by (rule sint_add64) (use assms e in \<open>simp_all add: fits_def\<close>)
  with e show "sint (SourceOffset c + Size c + g) = sint (SourceOffset c) + sint (Size c) + sint g"
    by simp
qed

lemma merge_run_coalesce_from:
  assumes g: "0 \<le> sint g"
  shows "fits g c \<Longrightarrow> \<forall>x\<in>set xs. fits g x \<Longrightarrow> source_sorted (c # xs) \<Longrightarrow>
     merge_run g c (SourceOffset c + Size c) xs = coalesce_from g c xs
     \<and> (\<forall>y\<in>set (coalesce_from g c xs). fits g y)"
proof (induction xs arbitrary: c)
  case Nil then show ?case by simp
next
  case (Cons x xs)
  have fx: "fits g x" and fxs: "\<forall>x\<in>set xs. fits g x" using Cons.prems(2) by simp_all
  have le: "sint (SourceOffset c) \<le> sint (SourceOffset x)"
    using Cons.prems(3) by (simp add: word_sle_eq)
  have cond: "SourceOffset x <s SourceOffset c + Size c + g \<longleftrightarrow>
      sint (SourceOffset x) - (sint (SourceOffset c) + sint (Size c)) < sint g"
    using fits_end(2)[OF Cons.prems(1) g] by (auto simp: word_sless_alt)
  show ?case
  proof (cases "SourceOffset x <s SourceOffset c + Size c + g")
    case True
    let ?c = "c\<lparr>Size := SourceOffset x + Size x - SourceOffset c\<rparr>"
    have "sint (SourceOffset x + Size x - SourceOffset c)
        = sint (SourceOffset x + Size x) - sint (SourceOffset c)"
      by (rule sint_sub64)
        (use fits_end(1)[OF fx g] fx Cons.prems(1) le g in \<open>simp_all add: fits_def\<close>)
    then have sz: "sint (SourceOffset x + Size x - SourceOffset c)
        = sint (SourceOffset x) + sint (Size x) - sint (SourceOffset c)"
      using fits_end(1)[OF fx g] by simp
    have fc: "fits g ?c" using sz fx Cons.prems(1) le by (simp add: fits_def)
    have srt: "source_sorted (?c # xs)" using Cons.prems(3) by simp
    have e: "SourceOffset ?c + Size ?c = SourceOffset x + Size x" by simp
    have ih: "merge_run g ?c (SourceOffset x + Size x) xs = coalesce_from g ?c xs
        \<and> (\<forall>y\<in>set (coalesce_from g ?c xs). fits g y)"
      by (rule Cons.IH[OF fc fxs srt, unfolded e])
    have l: "merge_run g c (SourceOffset c + Size c) (x # xs)
        = merge_run g ?c (SourceOffset x + Size x) xs"
      using True by simp
    have r: "coalesce_from g c (x # xs) = coalesce_from g ?c xs"
      using True cond by simp
    show ?thesis unfolding l r by (rule ih)
  next
    case False
    have srt: "source_sorted (x # xs)" using Cons.prems(3) by simp
    have ih: "merge_run g x (SourceOffset x + Size x) xs = coalesce_from g x xs
        \<and> (\<forall>y\<in>set (coalesce_from g x xs). fits g y)"
      by (rule Cons.IH[OF fx fxs srt])
    have l: "merge_run g c (SourceOffset c + Size c) (x # xs)
        = c # merge_run g x (SourceOffset x + Size x) xs"
      using False by simp
    have r: "coalesce_from g c (x # xs) = c # coalesce_from g x xs"
      using False cond by simp
    show ?thesis unfolding l r using ih Cons.prems(1) by simp
  qed
qed

lemma merge_runs_coalesce:
  assumes "0 \<le> sint g" "\<forall>c\<in>set cl. fits g c" "source_sorted cl"
  shows "merge_runs g cl = coalesce g cl" and "\<forall>y\<in>set (coalesce g cl). fits g y"
proof -
  have "merge_runs g cl = coalesce g cl \<and> (\<forall>y\<in>set (coalesce g cl). fits g y)"
  proof (cases cl)
    case Nil then show ?thesis by (simp add: merge_runs_def coalesce_def)
  next
    case (Cons c cs)
    then have "fits g c" "\<forall>x\<in>set cs. fits g x" "source_sorted (c # cs)"
      using assms by simp_all
    from merge_run_coalesce_from[OF assms(1) this] Cons show ?thesis
      by (simp add: merge_runs_def coalesce_def)
  qed
  then show "merge_runs g cl = coalesce g cl" and "\<forall>y\<in>set (coalesce g cl). fits g y"
    by simp_all
qed

lemma settled_gap:
  assumes "0 \<le> sint g" "\<forall>y\<in>set ys. fits g y" "settled g ys"
  shows "successively (\<lambda>a b. sint g \<le> sint (SourceOffset b) - (sint (SourceOffset a) + sint (Size a))) ys"
proof (rule successively_mono[OF assms(3)])
  fix a b assume "a \<in> set ys" "b \<in> set ys" "\<not> SourceOffset b <s SourceOffset a + Size a + g"
  then show "sint g \<le> sint (SourceOffset b) - (sint (SourceOffset a) + sint (Size a))"
    using fits_end(2)[of g a] assms(1,2) by (auto simp: word_sless_alt)
qed

lemmas optimize_eval = OptimizeChunks_def optimize_outer_def optimize_inner_def upt_conv_Cons Let_def

text \<open>
  C2, as amended. On a list sorted by source offset whose chunks have non-negative
  offsets and sizes, and for \<open>minGap \<ge> 0\<close> with every chunk's end plus \<open>minGap\<close> within
  int64, \<open>OptimizeChunks\<close> is the coalescing rule of the specification: a later chunk
  is merged into the current one exactly when its begin minus the current (possibly
  extended) end is less than \<open>minGap\<close>, the current end becomes the later chunk's end
  and the later chunk is dropped. In the result, adjacent chunks are at least
  \<open>minGap\<close> bytes apart.
\<close>

theorem OptimizeChunks_coalesces:
  assumes "sorted_wrt (\<lambda>a b. SourceOffset a \<le>s SourceOffset b) chunkList"
    and "0 \<le> sint minGap"
    and "\<forall>c\<in>set chunkList. fits minGap c"
  shows "OptimizeChunks chunkList minGap = coalesce minGap chunkList
     \<and> successively (\<lambda>a b. sint minGap \<le> sint (SourceOffset b) - (sint (SourceOffset a) + sint (Size a)))
          (OptimizeChunks chunkList minGap)"
proof -
  have eq: "OptimizeChunks chunkList minGap = merge_runs minGap chunkList"
    by (rule OptimizeChunks_merge_runs[OF assms(1)])
  have co: "merge_runs minGap chunkList = coalesce minGap chunkList"
    by (rule merge_runs_coalesce(1)[OF assms(2,3,1)])
  have "successively (\<lambda>a b. sint minGap \<le> sint (SourceOffset b) - (sint (SourceOffset a) + sint (Size a)))
          (merge_runs minGap chunkList)"
    using settled_gap[OF assms(2) _ merge_runs_settled[of minGap chunkList]]
      merge_runs_coalesce(2)[OF assms(2,3,1)] co by simp
  with eq co show ?thesis by simp
qed

theorem OptimizeChunks_coalesces_witness:
  "OptimizeChunks [\<lparr>Size = 10, SourceOffset = 0, TargetOffset = 0\<rparr>,
                   \<lparr>Size = 100, SourceOffset = 200, TargetOffset = 200\<rparr>,
                   \<lparr>Size = 50, SourceOffset = 5000, TargetOffset = 5000\<rparr>] 1024
     = [\<lparr>Size = 300, SourceOffset = 0, TargetOffset = 0\<rparr>,
        \<lparr>Size = 50, SourceOffset = 5000, TargetOffset = 5000\<rparr>]"
  using OptimizeChunks_coalesces [of "[\<lparr>Size = 10, SourceOffset = 0, TargetOffset = 0\<rparr>,
                   \<lparr>Size = 100, SourceOffset = 200, TargetOffset = 200\<rparr>,
                   \<lparr>Size = 50, SourceOffset = 5000, TargetOffset = 5000\<rparr>]" 1024]
  by (simp add: fits_def coalesce_def word_sle_eq)

text \<open>
  C2 as stated, for every \<open>minGap \<ge> 0\<close>, fails where \<open>end + minGap\<close> wraps around:
  with \<open>minGap = 2\<^sup>6\<^sup>3 - 1\<close> the chunks \<open>[0, 10)\<close> and \<open>[20, 30)\<close> are 10 bytes
  apart, yet \<open>OptimizeChunks\<close> returns them unmerged, where the rule merges them.
  The difference \<open>20 - 10\<close> is less than \<open>minGap\<close> on mathematical integers and in
  int64 arithmetic alike.
\<close>

theorem OptimizeChunks_overflow_counterexample:
  "OptimizeChunks [\<lparr>Size = 10, SourceOffset = 0, TargetOffset = 0\<rparr>,
                   \<lparr>Size = 10, SourceOffset = 20, TargetOffset = 20\<rparr>] 9223372036854775807
     = [\<lparr>Size = 10, SourceOffset = 0, TargetOffset = 0\<rparr>,
        \<lparr>Size = 10, SourceOffset = 20, TargetOffset = 20\<rparr>]
   \<and> coalesce 9223372036854775807 [\<lparr>Size = 10, SourceOffset = 0, TargetOffset = 0\<rparr>,
                   \<lparr>Size = 10, SourceOffset = 20, TargetOffset = 20\<rparr>]
     = [\<lparr>Size = 30, SourceOffset = 0, TargetOffset = 0\<rparr>]
   \<and> sint (20 :: int64) - (sint (0 :: int64) + sint (10 :: int64)) < sint (9223372036854775807 :: int64)
   \<and> (20 :: int64) - (0 + 10) <s 9223372036854775807
   \<and> (0 :: int) \<le> sint (9223372036854775807 :: int64)
   \<and> (0 :: int64) \<le>s 20"
  by (simp add: optimize_eval coalesce_def word_sle_eq)

text \<open>
  C10. On a list sorted by source offset, \<open>OptimizeChunks\<close> applied to its own result
  with the same \<open>minGap\<close> returns that result: the second pass merges nothing. This
  holds in int64 arithmetic for every \<open>minGap\<close>.
\<close>

theorem OptimizeChunks_idempotent:
  assumes "sorted_wrt (\<lambda>a b. SourceOffset a \<le>s SourceOffset b) chunkList"
  shows "OptimizeChunks (OptimizeChunks chunkList minGap) minGap = OptimizeChunks chunkList minGap"
proof -
  have "OptimizeChunks chunkList minGap = merge_runs minGap chunkList"
    by (rule OptimizeChunks_merge_runs[OF assms])
  moreover have "OptimizeChunks (merge_runs minGap chunkList) minGap
       = merge_runs minGap (merge_runs minGap chunkList)"
    by (rule OptimizeChunks_merge_runs[OF merge_runs_sorted[OF assms]])
  ultimately show ?thesis by (simp add: merge_runs_fixed[OF merge_runs_settled])
qed

theorem OptimizeChunks_idempotent_witness:
  "OptimizeChunks (OptimizeChunks [\<lparr>Size = 10, SourceOffset = 0, TargetOffset = 0\<rparr>,
                   \<lparr>Size = 100, SourceOffset = 200, TargetOffset = 200\<rparr>] 1024) 1024
     = OptimizeChunks [\<lparr>Size = 10, SourceOffset = 0, TargetOffset = 0\<rparr>,
                   \<lparr>Size = 100, SourceOffset = 200, TargetOffset = 200\<rparr>] 1024"
  using OptimizeChunks_idempotent [of "[\<lparr>Size = 10, SourceOffset = 0, TargetOffset = 0\<rparr>,
                   \<lparr>Size = 100, SourceOffset = 200, TargetOffset = 200\<rparr>]" 1024]
  by (simp add: word_sle_eq)

section \<open>The plan covers the remote file\<close>

text \<open>
  Go leaves the order in which \<open>range\<close> visits a map open. It does not matter to
  \<open>GetMappedChunks\<close>: every chunk is stored under its own target offset, so the keys
  of the sort are distinct, and in whatever order the entries are visited the
  sorted list is the same.
\<close>

lemma in_update: "e \<in> set (AList.update k v al) \<Longrightarrow> e = (k, v) \<or> e \<in> set al"
  by (induction al) (auto split: if_splits)

lemma Add_keys:
  "\<forall>e\<in>set (chunksMap m). TargetOffset (snd e) = fst e \<Longrightarrow> distinct (map fst (chunksMap m)) \<Longrightarrow>
     (\<forall>e\<in>set (chunksMap (Add m c)). TargetOffset (snd e) = fst e)
     \<and> distinct (map fst (chunksMap (Add m c)))"
  by (auto simp: Add_def distinct_update dest!: in_update)

lemma FillChunksMap_keys:
  "\<forall>e\<in>set (chunksMap m). TargetOffset (snd e) = fst e \<Longrightarrow> distinct (map fst (chunksMap m)) \<Longrightarrow>
     (\<forall>e\<in>set (chunksMap (FillChunksMap m cs)). TargetOffset (snd e) = fst e)
     \<and> distinct (map fst (chunksMap (FillChunksMap m cs)))"
proof (induction cs arbitrary: m)
  case Nil then show ?case by (simp add: FillChunksMap_def)
next
  case (Cons c cs)
  from Add_keys[OF Cons.prems, of c] Cons.IH[of "Add m c"] show ?case
    by (simp add: FillChunksMap_def)
qed

lemma GetMappedChunks_any_order:
  assumes keys: "\<forall>e\<in>set (chunksMap m). TargetOffset (snd e) = fst e"
    and dist: "distinct (map fst (chunksMap m))"
    and perm: "mset visited = mset (chunksMap m)"
  shows "GetMappedChunks (m\<lparr>chunksMap := visited\<rparr>) = GetMappedChunks m"
proof -
  let ?f = "\<lambda>chk. sint (TargetOffset chk)"
  have set_eq: "set visited = set (chunksMap m)" using perm by (rule mset_eq_setD)
  have "inj_on (\<lambda>e. TargetOffset (snd e)) (set (chunksMap m))"
  proof (rule inj_onI)
    fix a b assume "a \<in> set (chunksMap m)" "b \<in> set (chunksMap m)"
      "TargetOffset (snd a) = TargetOffset (snd b)"
    then have "fst a = fst b" using keys by simp
    then show "a = b"
      using dist \<open>a \<in> set (chunksMap m)\<close> \<open>b \<in> set (chunksMap m)\<close>
      by (meson distinct_map inj_onD)
  qed
  then have inj: "inj_on ?f (snd ` set visited)"
    unfolding set_eq by (auto simp: inj_on_def sint64_eq_iff)
  have "mset (map snd visited) = mset (map snd (chunksMap m))" using perm by (metis mset_map)
  then have "sort_key ?f (map snd visited) = sort_key ?f (map snd (chunksMap m))"
    using inj by (intro sort_key_inj_key_eq) simp_all
  then show ?thesis by (simp add: GetMappedChunks_def)
qed

lemma update_fresh: "k \<notin> fst ` set al \<Longrightarrow> AList.update k v al = al @ [(k, v)]"
  by (induction al) auto

lemma fold_Add_fresh:
  "distinct (map TargetOffset cs) \<Longrightarrow> TargetOffset ` set cs \<inter> fst ` set (chunksMap m) = {} \<Longrightarrow>
     fold (\<lambda>chunk m. Add m chunk) cs m
       = m\<lparr>chunksMap := chunksMap m @ map (\<lambda>c. (TargetOffset c, c)) cs\<rparr>"
proof (induction cs arbitrary: m)
  case Nil then show ?case by simp
next
  case (Cons c cs)
  have fresh: "TargetOffset c \<notin> fst ` set (chunksMap m)" using Cons.prems(2) by auto
  have step: "Add m c = m\<lparr>chunksMap := chunksMap m @ [(TargetOffset c, c)]\<rparr>"
    by (simp add: Add_def update_fresh[OF fresh])
  have "fold (\<lambda>chunk m. Add m chunk) cs (Add m c)
      = (Add m c)\<lparr>chunksMap := chunksMap (Add m c) @ map (\<lambda>c. (TargetOffset c, c)) cs\<rparr>"
    by (rule Cons.IH) (use Cons.prems step in \<open>auto simp: image_Un\<close>)
  then show ?case by (simp add: step)
qed

lemma FillChunksMap_fresh:
  "distinct (map TargetOffset cs) \<Longrightarrow>
     FillChunksMap (NewFileChunksMapper r) cs
       = \<lparr>fileSize = r, chunksMap = map (\<lambda>c. (TargetOffset c, c)) cs\<rparr>"
  by (simp add: FillChunksMap_def fold_Add_fresh NewFileChunksMapper_def)

lemma GetMappedChunks_fresh:
  "distinct (map TargetOffset cs) \<Longrightarrow>
     GetMappedChunks (FillChunksMap (NewFileChunksMapper r) cs) = sort_key target_begin cs"
  by (simp add: FillChunksMap_fresh GetMappedChunks_def comp_def target_begin_def[abs_def])

lemma fold_missing_step:
  "(case fold missing_step cs (acc, p) of
      (ms, pe) \<Rightarrow> if pe \<noteq> r then ms @ [gap pe r] else ms)
   = acc @ missing_from p cs r"
  by (induction cs arbitrary: acc p) (simp_all add: missing_step_def gap_def)

lemma GetMissingChunks_missing_from:
  "GetMissingChunks m = missing_from 0 (GetMappedChunks m) (fileSize m)"
  using fold_missing_step[of "fileSize m" "GetMappedChunks m" "[]" 0]
  unfolding GetMissingChunks_def gap_def by simp

lemma extent_nonempty: "0 < sint (Size c) \<Longrightarrow> target_begin c \<in> extent c"
  by (simp add: extent_def target_end_def target_begin_def)

lemma pairwise_disjoint_distinct:
  "pairwise_disjoint cs \<Longrightarrow> \<forall>c\<in>set cs. 0 < sint (Size c) \<Longrightarrow> distinct (map TargetOffset cs)"
proof (induction cs)
  case Nil then show ?case by simp
next
  case (Cons c cs)
  have "TargetOffset c \<noteq> TargetOffset d" if d: "d \<in> set cs" for d
  proof
    assume eq: "TargetOffset c = TargetOffset d"
    have "target_begin c \<in> extent c" "target_begin d \<in> extent d"
      using Cons.prems(2) d by (simp_all add: extent_nonempty)
    moreover have "target_begin c = target_begin d" using eq by (simp add: target_begin_def)
    ultimately show False using Cons.prems(1) d by auto
  qed
  with Cons show ?case by auto
qed

lemma pairwise_disjoint_set:
  "pairwise_disjoint cs \<Longrightarrow> a \<in> set cs \<Longrightarrow> b \<in> set cs \<Longrightarrow> TargetOffset a \<noteq> TargetOffset b \<Longrightarrow>
     extent a \<inter> extent b = {}"
  by (induction cs) auto

lemma chain_of_sorted:
  assumes "\<And>a b. a \<in> set ms \<Longrightarrow> b \<in> set ms \<Longrightarrow> TargetOffset a \<noteq> TargetOffset b \<Longrightarrow>
             extent a \<inter> extent b = {}"
    and "\<forall>c\<in>set ms. 0 < sint (Size c)"
  shows "distinct (map TargetOffset ms) \<Longrightarrow> sorted (map target_begin ms) \<Longrightarrow>
     sorted_wrt (\<lambda>a b. target_end a \<le> target_begin b) ms"
  using assms
proof (induction ms)
  case Nil then show ?case by simp
next
  case (Cons x xs)
  have "target_end x \<le> target_begin y" if y: "y \<in> set xs" for y
  proof (rule ccontr)
    assume "\<not> target_end x \<le> target_begin y"
    moreover have "target_begin x \<le> target_begin y" using Cons.prems(2) y by simp
    moreover have "0 < sint (Size y)" using Cons.prems(4) y by simp
    ultimately have "target_begin y \<in> extent x \<inter> extent y"
      by (simp add: extent_def target_end_def target_begin_def)
    moreover have "TargetOffset x \<noteq> TargetOffset y" using Cons.prems(1) y by auto
    ultimately show False using Cons.prems(3)[of x y] y by auto
  qed
  moreover have "sorted_wrt (\<lambda>a b. target_end a \<le> target_begin b) xs"
    by (rule Cons.IH) (use Cons.prems in auto)
  ultimately show ?case by simp
qed

lemma merge_by_target_Nil2: "merge_by_target xs [] = xs"
  by (cases xs) simp_all

lemma merge_by_target_head:
  "\<forall>g\<in>set ys. TargetOffset c \<le>s TargetOffset g \<Longrightarrow>
     merge_by_target (c # cs) ys = c # merge_by_target cs ys"
  by (cases ys) (simp_all add: merge_by_target_Nil2)

lemma gap_props:
  assumes "sint p \<le> sint q" "0 \<le> sint p"
  shows "target_begin (gap p q) = sint p" "target_end (gap p q) = sint q"
    "sint (Size (gap p q)) = sint q - sint p"
proof -
  have "sint (q - p) = sint q - sint p"
    by (rule sint_sub64) (use assms sint64_bounds[of q] in simp_all)
  then show "target_begin (gap p q) = sint p" "target_end (gap p q) = sint q"
    "sint (Size (gap p q)) = sint q - sint p"
    by (simp_all add: gap_def target_begin_def target_end_def)
qed

lemma missing_from_tiles:
  "0 \<le> sint p \<Longrightarrow> sint p \<le> sint r \<Longrightarrow>
   sorted_wrt (\<lambda>a b. target_end a \<le> target_begin b) cs \<Longrightarrow>
   \<forall>c\<in>set cs. sint p \<le> target_begin c \<and> 0 < sint (Size c) \<and> target_end c \<le> sint r \<Longrightarrow>
     tiles (sint p) (merge_by_target cs (missing_from p cs r)) (sint r)
     \<and> (\<forall>g\<in>set (missing_from p cs r). SourceOffset g = TargetOffset g \<and> sint p \<le> target_begin g)"
proof (induction cs arbitrary: p)
  case Nil
  show ?case
  proof (cases "p = r")
    case True then show ?thesis by simp
  next
    case False
    then have "sint p < sint r" using Nil.prems(2) by (simp add: sint64_eq_iff)
    then show ?thesis using False gap_props[of p r] Nil.prems(1) by (simp add: gap_def)
  qed
next
  case (Cons c cs)
  let ?t = "TargetOffset c"
  let ?e = "TargetOffset c + Size c"
  have c: "sint p \<le> target_begin c" "0 < sint (Size c)" "target_end c \<le> sint r"
    using Cons.prems(4) by simp_all
  have e: "sint ?e = target_end c"
    unfolding target_end_def
    by (rule sint_add64)
      (use c Cons.prems(1) sint64_bounds[of r] in \<open>simp_all add: target_begin_def target_end_def\<close>)
  have ih: "tiles (sint ?e) (merge_by_target cs (missing_from ?e cs r)) (sint r)
     \<and> (\<forall>g\<in>set (missing_from ?e cs r). SourceOffset g = TargetOffset g \<and> sint ?e \<le> target_begin g)"
    by (rule Cons.IH)
      (use Cons.prems c e in \<open>auto simp: target_begin_def target_end_def\<close>)
  have after: "\<forall>g\<in>set (missing_from ?e cs r). ?t \<le>s TargetOffset g"
    using ih e c by (auto simp: word_sle_eq target_begin_def target_end_def)
  have head: "merge_by_target (c # cs) (missing_from ?e cs r)
      = c # merge_by_target cs (missing_from ?e cs r)"
    by (rule merge_by_target_head[OF after])
  show ?case
  proof (cases "p = ?t")
    case True
    then have "target_begin c = sint p" by (simp add: target_begin_def)
    then show ?thesis using True head ih e c by (auto simp: target_begin_def target_end_def)
  next
    case False
    then have lt: "sint p < sint ?t"
      using c(1) by (simp add: sint64_eq_iff target_begin_def)
    have g: "target_begin (gap p ?t) = sint p" "target_end (gap p ?t) = sint ?t"
        "sint (Size (gap p ?t)) = sint ?t - sint p"
      using gap_props[of p ?t] lt Cons.prems(1) by simp_all
    have "\<not> ?t \<le>s TargetOffset (gap p ?t)"
      using lt by (simp add: word_sle_eq gap_def)
    then have m: "merge_by_target (c # cs) (gap p ?t # missing_from ?e cs r)
        = gap p ?t # c # merge_by_target cs (missing_from ?e cs r)"
      using head by (cases "missing_from ?e cs r") (simp_all add: merge_by_target_Nil2)
    have smaller: "\<forall>g\<in>set (missing_from ?e cs r). sint p \<le> target_begin g"
      using ih e c by (auto simp: target_begin_def target_end_def)
    show ?thesis
      using False m ih e c g lt smaller
      by (simp add: target_begin_def gap_def)
  qed
qed

lemma tiles_props:
  "tiles p cs r \<Longrightarrow>
     p \<le> r
     \<and> sorted_wrt (\<lambda>a b. target_end a \<le> target_begin b) cs
     \<and> (\<forall>c\<in>set cs. p \<le> target_begin c \<and> 0 < sint (Size c) \<and> target_end c \<le> r)
     \<and> (\<Union>c\<in>set cs. extent c) = {p..<r}"
proof (induction cs arbitrary: p)
  case Nil then show ?case by simp
next
  case (Cons c cs)
  then have c: "target_begin c = p" "0 < sint (Size c)" and t: "tiles (target_end c) cs r"
    by simp_all
  have lt: "p < target_end c" using c by (simp add: target_end_def target_begin_def)
  from Cons.IH[OF t] have ih: "target_end c \<le> r"
    "sorted_wrt (\<lambda>a b. target_end a \<le> target_begin b) cs"
    "\<forall>d\<in>set cs. target_end c \<le> target_begin d \<and> 0 < sint (Size d) \<and> target_end d \<le> r"
    "(\<Union>d\<in>set cs. extent d) = {target_end c..<r}"
    by simp_all
  have "extent c \<union> {target_end c..<r} = {p..<r}"
    using c lt ih(1) by (auto simp: extent_def)
  with ih c lt show ?case by (auto simp: extent_def)
qed

text \<open>
  C1. Let the chunks added to a mapper for a remote file of size \<open>R \<ge> 0\<close> have
  positive sizes, lie within \<open>[0, R)\<close> and be pairwise disjoint. Then the list merged
  from \<open>GetMappedChunks\<close> and \<open>GetMissingChunks\<close> is sorted ascending by target offset,
  its chunks are pairwise disjoint, none has size zero, and together they cover
  \<open>[0, R)\<close> exactly; every missing chunk has its source offset equal to its target
  offset, and the mapped chunks are the chunks that were added.
\<close>

theorem planned_chunks_partition:
  assumes R: "0 \<le> sint R"
    and inside: "\<forall>c\<in>set cs. 0 \<le> target_begin c \<and> 0 < sint (Size c) \<and> target_end c \<le> sint R"
    and disj: "pairwise_disjoint cs"
  shows "sorted_wrt (\<lambda>a b. target_begin a < target_begin b)
           (planned_chunks (FillChunksMap (NewFileChunksMapper R) cs))
     \<and> sorted_wrt (\<lambda>a b. extent a \<inter> extent b = {})
           (planned_chunks (FillChunksMap (NewFileChunksMapper R) cs))
     \<and> (\<forall>c\<in>set (planned_chunks (FillChunksMap (NewFileChunksMapper R) cs)). Size c \<noteq> 0)
     \<and> (\<Union>c\<in>set (planned_chunks (FillChunksMap (NewFileChunksMapper R) cs)). extent c)
           = {0..<sint R}
     \<and> (\<forall>c\<in>set (GetMissingChunks (FillChunksMap (NewFileChunksMapper R) cs)).
           SourceOffset c = TargetOffset c)
     \<and> set (GetMappedChunks (FillChunksMap (NewFileChunksMapper R) cs)) = set cs"
proof -
  define m where "m = FillChunksMap (NewFileChunksMapper R) cs"
  define ms where "ms = GetMappedChunks m"
  have pos: "\<forall>c\<in>set cs. 0 < sint (Size c)" using inside by simp
  have d: "distinct (map TargetOffset cs)"
    by (rule pairwise_disjoint_distinct[OF disj pos])
  have ms: "ms = sort_key target_begin cs"
    unfolding ms_def m_def by (rule GetMappedChunks_fresh[OF d])
  have set_ms: "set ms = set cs" by (simp add: ms)
  have fs: "fileSize m = R" unfolding m_def by (simp add: FillChunksMap_fresh[OF d])
  have d_ms: "distinct (map TargetOffset ms)"
    using d by (simp add: distinct_map ms)
  have s_ms: "sorted (map target_begin ms)" by (simp add: ms)
  have chain: "sorted_wrt (\<lambda>a b. target_end a \<le> target_begin b) ms"
  proof (rule chain_of_sorted[OF _ _ d_ms s_ms])
    show "\<forall>c\<in>set ms. 0 < sint (Size c)" using pos set_ms by simp
    show "extent a \<inter> extent b = {}"
      if "a \<in> set ms" "b \<in> set ms" "TargetOffset a \<noteq> TargetOffset b" for a b
      using pairwise_disjoint_set[OF disj] that set_ms by simp
  qed
  have missing: "GetMissingChunks m = missing_from 0 ms R"
    by (simp add: GetMissingChunks_missing_from ms_def fs)
  have "tiles (sint (0 :: int64)) (merge_by_target ms (missing_from 0 ms R)) (sint R)
     \<and> (\<forall>g\<in>set (missing_from 0 ms R). SourceOffset g = TargetOffset g
           \<and> sint (0 :: int64) \<le> target_begin g)"
    by (rule missing_from_tiles) (use R inside set_ms chain in simp_all)
  then have t: "tiles 0 (planned_chunks m) (sint R)"
    and st: "\<forall>g\<in>set (GetMissingChunks m). SourceOffset g = TargetOffset g"
    by (simp_all add: planned_chunks_def missing ms_def[symmetric])
  from tiles_props[OF t] have p:
    "sorted_wrt (\<lambda>a b. target_end a \<le> target_begin b) (planned_chunks m)"
    "\<forall>c\<in>set (planned_chunks m). 0 \<le> target_begin c \<and> 0 < sint (Size c) \<and> target_end c \<le> sint R"
    "(\<Union>c\<in>set (planned_chunks m). extent c) = {0..<sint R}"
    by simp_all
  have asc: "sorted_wrt (\<lambda>a b. target_begin a < target_begin b) (planned_chunks m)"
    by (rule sorted_wrt_mono_rel[OF _ p(1)])
      (use p(2) in \<open>auto simp: target_end_def target_begin_def\<close>)
  have dis: "sorted_wrt (\<lambda>a b. extent a \<inter> extent b = {}) (planned_chunks m)"
    by (rule sorted_wrt_mono_rel[OF _ p(1)]) (auto simp: extent_def)
  have nz: "\<forall>c\<in>set (planned_chunks m). Size c \<noteq> 0" using p(2) by auto
  show ?thesis
    using asc dis nz p(3) st set_ms unfolding m_def ms_def by simp
qed

lemmas planner_eval = FillChunksMap_def NewFileChunksMapper_def Add_def GetMappedChunks_def
  GetMissingChunks_def missing_step_def planned_chunks_def

theorem planned_chunks_partition_witness:
  "planned_chunks (FillChunksMap (NewFileChunksMapper 70)
       [\<lparr>Size = 6, SourceOffset = 100, TargetOffset = 64\<rparr>,
        \<lparr>Size = 16, SourceOffset = 100, TargetOffset = 16\<rparr>])
     = [\<lparr>Size = 16, SourceOffset = 0, TargetOffset = 0\<rparr>,
        \<lparr>Size = 16, SourceOffset = 100, TargetOffset = 16\<rparr>,
        \<lparr>Size = 32, SourceOffset = 32, TargetOffset = 32\<rparr>,
        \<lparr>Size = 6, SourceOffset = 100, TargetOffset = 64\<rparr>]
   \<and> (\<Union>c\<in>set (planned_chunks (FillChunksMap (NewFileChunksMapper 70)
       [\<lparr>Size = 6, SourceOffset = 100, TargetOffset = 64\<rparr>,
        \<lparr>Size = 16, SourceOffset = 100, TargetOffset = 16\<rparr>])). extent c) = {0..<70}"
proof -
  have plan: "planned_chunks (FillChunksMap (NewFileChunksMapper 70)
       [\<lparr>Size = 6, SourceOffset = 100, TargetOffset = 64\<rparr>,
        \<lparr>Size = 16, SourceOffset = 100, TargetOffset = 16\<rparr>])
     = [\<lparr>Size = 16, SourceOffset = 0, TargetOffset = 0\<rparr>,
        \<lparr>Size = 16, SourceOffset = 100, TargetOffset = 16\<rparr>,
        \<lparr>Size = 32, SourceOffset = 32, TargetOffset = 32\<rparr>,
        \<lparr>Size = 6, SourceOffset = 100, TargetOffset = 64\<rparr>]"
    by (simp add: planner_eval word_sle_eq)
  have "(\<Union>c\<in>set (planned_chunks (FillChunksMap (NewFileChunksMapper 70)
       [\<lparr>Size = 6, SourceOffset = 100, TargetOffset = 64\<rparr>,
        \<lparr>Size = 16, SourceOffset = 100, TargetOffset = 16\<rparr>])). extent c) = {0..<sint (70 :: int64)}"
    using planned_chunks_partition [of 70 "[\<lparr>Size = 6, SourceOffset = 100, TargetOffset = 64\<rparr>,
        \<lparr>Size = 16, SourceOffset = 100, TargetOffset = 16\<rparr>]"]
    by (simp add: target_begin_def target_end_def extent_def)
  with plan show ?thesis by simp
qed

end
